(* ===== verification/Prelude.thy ===== *)
theory Prelude
  imports Main "HOL-Library.Word" "HOL-Library.List_Lexorder" "HOL-Library.Char_ord"
begin

text \<open>
  Shared vocabulary of the dnp3-bridge development: the machine integer types of the C++
  sources, the ordered map that stands for \<open>std::map\<close>, outcomes of calls that may throw,
  and the transition systems that model the threads of the program.
\<close>

section \<open>Machine integers\<close>

type_synonym u8 = "8 word"
type_synonym u16 = "16 word"
type_synonym u32 = "32 word"
type_synonym u64 = "64 word"

text \<open>Facts that bring a goal about words to naturals.\<close>

named_theorems word_to_nat

lemma u16_less_65536 [word_to_nat]: "unat (x :: u16) < 65536"
  using unsigned_less [of x] by simp

lemma ucast_u16_u32_unat [word_to_nat]: "unat (ucast (x :: u16) :: u32) = unat x"
  using u16_less_65536 [of x] by (simp add: unsigned_ucast_eq take_bit_eq_mod)

lemma ucast_u32_u16_unat [word_to_nat]: "unat (ucast (x :: u32) :: u16) = unat x mod 65536"
  by (simp add: unsigned_ucast_eq take_bit_eq_mod unat_of_nat)

lemma unat_of_nat_u16 [word_to_nat]: "unat (of_nat n :: u16) = n mod 65536"
  by (simp add: unat_of_nat)

lemma unat_of_nat_u32 [word_to_nat]: "unat (of_nat n :: u32) = n mod 4294967296"
  by (simp add: unat_of_nat)

section \<open>Calls that return or throw\<close>

text \<open>
  \<open>Throw x\<close> is a C++ exception that leaves the call, \<open>Ret v\<close> a normal return. A
  \<open>std::expected<T, E>\<close> is a sum: \<open>Inl\<close> is the unexpected value, \<open>Inr\<close> the expected one.
\<close>

datatype ('x, 'a) outcome = Throw 'x | Ret 'a

fun and_then :: "('x, 'a) outcome \<Rightarrow> ('a \<Rightarrow> ('x, 'b) outcome) \<Rightarrow> ('x, 'b) outcome" where
  "and_then (Throw x) f = Throw x"
| "and_then (Ret v) f = f v"

lemma and_then_Ret [simp]: "and_then r Ret = r"
  by (cases r) auto

lemma and_then_assoc: "and_then (and_then r f) g = and_then r (\<lambda>v. and_then (f v) g)"
  by (cases r) auto

lemma and_then_eq_Ret:
  "and_then r f = Ret w \<longleftrightarrow> (\<exists>v. r = Ret v \<and> f v = Ret w)"
  by (cases r) auto

lemma and_then_eq_Throw:
  "and_then r f = Throw x \<longleftrightarrow> r = Throw x \<or> (\<exists>v. r = Ret v \<and> f v = Throw x)"
  by (cases r) auto

text \<open>A block of statements that each update a local object and may throw.\<close>

fun run_block :: "('a \<Rightarrow> ('x, 'a) outcome) list \<Rightarrow> 'a \<Rightarrow> ('x, 'a) outcome" where
  "run_block [] a = Ret a"
| "run_block (p # ps) a = and_then (p a) (run_block ps)"

text \<open>
  The early-return idiom \<open>if (auto r = f(); !r) return r;\<close> over a list of checks: the first
  check that yields an unexpected value decides.
\<close>

fun first_error :: "(string + unit) list \<Rightarrow> string + unit" where
  "first_error [] = Inr ()"
| "first_error (r # rs) = (case r of Inl e \<Rightarrow> Inl e | Inr u \<Rightarrow> first_error rs)"

lemma first_error_append:
  "first_error (rs @ ss) = (case first_error rs of Inl e \<Rightarrow> Inl e | Inr u \<Rightarrow> first_error ss)"
  by (induction rs) (auto split: sum.splits)

lemma first_error_ok: "first_error rs = Inr () \<longleftrightarrow> (\<forall>r \<in> set rs. r = Inr ())"
  by (induction rs) (auto split: sum.splits)

lemma first_error_Inl:
  "first_error rs = Inl e \<longleftrightarrow>
     (\<exists>i < length rs. rs ! i = Inl e \<and> (\<forall>j < i. rs ! j = Inr ()))"
proof (induction rs)
  case Nil
  then show ?case by simp
next
  case (Cons r rs)
  show ?case
  proof (cases r)
    case (Inl a)
    then show ?thesis
      by (auto simp: nth_Cons' intro!: exI [of _ 0])
  next
    case (Inr u)
    then show ?thesis
      by (auto simp: Cons.IH Ex_less_Suc2 All_less_Suc2)
  qed
qed

lemma first_error_Cons [simp]:
  "first_error (r # rs) = Inr () \<longleftrightarrow> r = Inr () \<and> first_error rs = Inr ()"
  "first_error (r # rs) = Inl e \<longleftrightarrow> r = Inl e \<or> (r = Inr () \<and> first_error rs = Inl e)"
  by (auto split: sum.splits)

declare first_error.simps(2) [simp del]

section \<open>Ordered maps\<close>

text \<open>
  A \<open>std::map\<close> is the list of its entries in ascending key order, as an iteration over it
  sees them. \<open>omap_put\<close> is \<open>m[k] = v\<close>; \<open>map_of\<close> is \<open>find\<close>.
\<close>

type_synonym ('k, 'v) omap = "('k \<times> 'v) list"

fun omap_put :: "'k :: linorder \<Rightarrow> 'v \<Rightarrow> ('k, 'v) omap \<Rightarrow> ('k, 'v) omap" where
  "omap_put key val [] = [(key, val)]"
| "omap_put key val (e # es) =
     (if key < fst e then (key, val) # e # es
      else if key = fst e then (key, val) # es
      else e # omap_put key val es)"

definition omap_ordered :: "('k :: linorder, 'v) omap \<Rightarrow> bool" where
  "omap_ordered m = sorted_wrt (<) (map fst m)"

lemma map_of_omap_put [simp]: "map_of (omap_put key val m) = (map_of m)(key \<mapsto> val)"
  by (induction m) auto

lemma set_keys_omap_put [simp]: "fst ` set (omap_put key val m) = insert key (fst ` set m)"
  by (induction m) auto

lemma omap_ordered_Nil [simp]: "omap_ordered []"
  by (simp add: omap_ordered_def)

lemma omap_ordered_Cons [simp]:
  "omap_ordered (e # m) \<longleftrightarrow> (\<forall>k \<in> fst ` set m. fst e < k) \<and> omap_ordered m"
  by (auto simp: omap_ordered_def)

lemma omap_ordered_put [simp]: "omap_ordered m \<Longrightarrow> omap_ordered (omap_put key val m)"
  by (induction m) auto

lemma omap_ordered_distinct: "omap_ordered m \<Longrightarrow> distinct (map fst m)"
  by (induction m) auto

lemma omap_ordered_map_snd [simp]: "omap_ordered (map (\<lambda>e. (fst e, f (snd e))) m) = omap_ordered m"
  by (simp add: omap_ordered_def comp_def)

section \<open>Transition systems\<close>

text \<open>
  The threaded parts of the program are step relations; each declares its reachable states
  as an inductive predicate. The locale is the contract between such a predicate and the
  invariant proofs: the states are those built by steps from an initial one, and no others.
\<close>

locale transition_system =
  fixes initial :: "'s \<Rightarrow> bool"
    and step :: "'s \<Rightarrow> 's \<Rightarrow> bool"
    and reachable :: "'s \<Rightarrow> bool"
  assumes reachable_initial: "initial s \<Longrightarrow> reachable s"
    and reachable_step: "reachable s \<Longrightarrow> step s t \<Longrightarrow> reachable t"
    and reachable_least:
      "reachable s \<Longrightarrow> (\<And>s. initial s \<Longrightarrow> P s) \<Longrightarrow>
         (\<And>s t. reachable s \<Longrightarrow> P s \<Longrightarrow> step s t \<Longrightarrow> P t) \<Longrightarrow> P s"
begin

lemma invariant:
  assumes "reachable s" and "\<And>s. initial s \<Longrightarrow> P s"
    and "\<And>s t. step s t \<Longrightarrow> P s \<Longrightarrow> P t"
  shows "P s"
  using assms(1) by (rule reachable_least) (auto intro: assms)

lemma invariant_with:
  assumes "reachable s" and "\<And>s. reachable s \<Longrightarrow> Q s" and "\<And>s. initial s \<Longrightarrow> P s"
    and "\<And>s t. step s t \<Longrightarrow> Q s \<Longrightarrow> Q t \<Longrightarrow> P s \<Longrightarrow> P t"
  shows "P s"
  using assms(1) by (rule reachable_least) (auto intro: assms reachable_step)

lemma reachable_steps:
  assumes "reachable s" and "step\<^sup>*\<^sup>* s t"
  shows "reachable t"
  using assms(2,1) by (induction rule: rtranclp_induct) (auto intro: reachable_step)

lemma stable_along:
  assumes "step\<^sup>*\<^sup>* s t" and "reachable s" and "P s"
    and "\<And>u v. reachable u \<Longrightarrow> step u v \<Longrightarrow> P u \<Longrightarrow> P v"
  shows "P t"
  using assms(1)
proof (induction rule: rtranclp_induct)
  case base
  show ?case by (rule assms(3))
next
  case (step u v)
  from assms(2) step.hyps(1) have "reachable u" by (rule reachable_steps)
  then show ?case using step.hyps(2) step.IH by (rule assms(4))
qed

end

text \<open>
  A component inside a larger system: seen through \<open>part\<close>, each step of the system is a step of the
  component or leaves it alone. Then the component only ever is in a state it can reach by itself,
  and every invariant proved of it holds in the system.
\<close>

locale component =
  whole: transition_system initial step reachable +
  single: transition_system part_initial part_step part_reachable
  for initial :: "'s \<Rightarrow> bool" and step :: "'s \<Rightarrow> 's \<Rightarrow> bool" and reachable :: "'s \<Rightarrow> bool"
    and part_initial :: "'p \<Rightarrow> bool" and part_step :: "'p \<Rightarrow> 'p \<Rightarrow> bool"
    and part_reachable :: "'p \<Rightarrow> bool" +
  fixes part :: "'s \<Rightarrow> 'p"
  assumes part_of_initial: "initial s \<Longrightarrow> part_initial (part s)"
    and part_of_step: "step s t \<Longrightarrow> part t = part s \<or> part_step (part s) (part t)"
begin

lemma part_reached: "reachable s \<Longrightarrow> part_reachable (part s)"
  by (rule whole.invariant [where P = "\<lambda>s. part_reachable (part s)"])
    (auto dest!: part_of_initial part_of_step intro: single.reachable_initial single.reachable_step)

lemma part_run: "step\<^sup>*\<^sup>* s t \<Longrightarrow> part_step\<^sup>*\<^sup>* (part s) (part t)"
proof (induction rule: rtranclp_induct)
  case (step t u)
  from part_of_step [OF step.hyps(2)] step.IH show ?case by (auto intro: rtranclp.rtrancl_into_rtrancl)
qed simp

end

end
