(* ===== verification/Float64.thy ===== *)
theory Float64
  imports Prelude
begin

text \<open>
  The C++ \<open>double\<close> and \<open>float\<close> as IEEE 754 binary64 and binary32, with what the sources use
  of them: \<open>-\<close>, \<open>>\<close>, \<open>std::fabs\<close>, \<open>std::isfinite\<close> and the casts to \<open>double\<close>.
  A finite double is a sign and a magnitude counted in units of \<open>2^-1074\<close>, the smallest
  positive double, so every finite value and every exact difference is an integer.
  Subtraction rounds that integer to 53 significant bits, ties to even. NaN payloads are
  not kept.
\<close>

section \<open>Rounding to 53 significant bits\<close>

fun bit_length :: "nat \<Rightarrow> nat" where
  "bit_length n = (if n = 0 then 0 else Suc (bit_length (n div 2)))"

declare bit_length.simps [simp del]

lemma bit_length_0 [simp]: "bit_length 0 = 0"
  by (simp add: bit_length.simps)

lemma bit_length_le_iff: "bit_length n \<le> k \<longleftrightarrow> n < 2 ^ k"
proof (induction n arbitrary: k rule: bit_length.induct)
  case (1 n)
  show ?case
  proof (cases "n = 0")
    case False
    then have unfold: "bit_length n = Suc (bit_length (n div 2))"
      by (simp add: bit_length.simps [of n])
    show ?thesis
    proof (cases k)
      case (Suc j)
      have "bit_length n \<le> k \<longleftrightarrow> n div 2 < 2 ^ j"
        using 1 False by (simp add: unfold Suc)
      also have "\<dots> \<longleftrightarrow> n < 2 ^ k"
        by (simp add: Suc less_mult_imp_div_less div_less_iff_less_mult mult.commute)
      finally show ?thesis .
    qed (use False unfold in simp)
  qed simp
qed

lemma less_bit_length_iff: "k < bit_length n \<longleftrightarrow> 2 ^ k \<le> n"
  using bit_length_le_iff [of n k] by (simp add: not_le [symmetric])

lemma bit_length_mono: "m \<le> n \<Longrightarrow> bit_length m \<le> bit_length n"
  unfolding bit_length_le_iff using bit_length_le_iff [of n "bit_length n"] by simp

definition excess :: "nat \<Rightarrow> nat" where
  "excess m = bit_length m - 53"

text \<open>The magnitudes binary64 can represent: at most 53 significant bits.\<close>

definition representable :: "nat \<Rightarrow> bool" where
  "representable m \<longleftrightarrow> 2 ^ excess m dvd m"

definition round_mag :: "nat \<Rightarrow> nat" where
  "round_mag m =
     (let unit = 2 ^ excess m; q = m div unit; r = m mod unit
      in if unit < 2 * r \<or> (2 * r = unit \<and> odd q) then (q + 1) * unit else q * unit)"

lemma excess_mono: "m \<le> n \<Longrightarrow> excess m \<le> excess n"
  by (simp add: excess_def bit_length_mono diff_le_mono)

lemma excess_0: "m < 2 ^ 53 \<Longrightarrow> excess m = 0"
  by (simp add: excess_def bit_length_le_iff)

lemma less_excess_bound: "m < 2 ^ (53 + excess m)"
  using bit_length_le_iff [of m "bit_length m"]
  by (auto simp: excess_def intro: less_le_trans power_increasing)

lemma excess_lower: "0 < excess m \<Longrightarrow> 2 ^ (52 + excess m) \<le> m"
  using less_bit_length_iff [of "52 + excess m" m] by (simp add: excess_def)

lemma representable_dvd: "representable m \<Longrightarrow> e \<le> excess m \<Longrightarrow> 2 ^ e dvd m"
  unfolding representable_def using le_imp_power_dvd dvd_trans by blast

lemma representable_small: "m < 2 ^ 53 \<Longrightarrow> representable m"
  by (simp add: representable_def excess_0)

lemma representable_scaled: "q \<le> 2 ^ 53 \<Longrightarrow> representable (q * 2 ^ e)"
proof (cases "q = 2 ^ 53")
  case True
  then have "q * 2 ^ e = 2 ^ (53 + e)" by (simp add: power_add)
  moreover have "excess (2 ^ (53 + e)) \<le> 53 + e"
    using bit_length_le_iff [of "2 ^ (53 + e)" "Suc (53 + e)"] by (simp add: excess_def)
  ultimately show ?thesis
    unfolding representable_def by (metis le_imp_power_dvd)
next
  case False
  assume "q \<le> 2 ^ 53"
  with False have "q * 2 ^ e < 2 ^ (53 + e)" by (simp add: power_add)
  then have "excess (q * 2 ^ e) \<le> e"
    using bit_length_le_iff [of "q * 2 ^ e" "53 + e"] by (simp add: excess_def)
  then show ?thesis
    unfolding representable_def by (meson dvd_triv_right dvd_trans le_imp_power_dvd)
qed

lemma quotient_bound: "m div 2 ^ excess m < 2 ^ 53"
  using less_excess_bound [of m]
  by (simp add: div_less_iff_less_mult power_add mult.commute)

lemma round_mag_cases:
  obtains (down) "round_mag m = (m div 2 ^ excess m) * 2 ^ excess m"
  | (up) "round_mag m = (m div 2 ^ excess m + 1) * 2 ^ excess m" "m mod 2 ^ excess m > 0"
proof -
  have "0 < m mod 2 ^ excess m" if "2 ^ excess m < 2 * (m mod 2 ^ excess m) \<or> 2 * (m mod 2 ^ excess m) = 2 ^ excess m"
  proof (rule ccontr)
    assume "\<not> 0 < m mod 2 ^ excess m"
    with that show False by simp
  qed
  then show ?thesis
    using that by (cases "2 ^ excess m < 2 * (m mod 2 ^ excess m) \<or>
      (2 * (m mod 2 ^ excess m) = 2 ^ excess m \<and> odd (m div 2 ^ excess m))")
      (auto simp: round_mag_def Let_def)
qed

lemma representable_round_mag: "representable (round_mag m)"
proof (cases m rule: round_mag_cases)
  case down
  then show ?thesis using quotient_bound [of m] by (metis representable_scaled less_imp_le)
next
  case up
  have "m div 2 ^ excess m + 1 \<le> 2 ^ 53" using quotient_bound [of m] by simp
  then show ?thesis using up(1) by (metis representable_scaled)
qed

lemma round_mag_id: "representable m \<Longrightarrow> round_mag m = m"
  by (simp add: representable_def round_mag_def Let_def)

lemma round_mag_small: "m < 2 ^ 53 \<Longrightarrow> round_mag m = m"
  by (simp add: round_mag_id representable_small)

text \<open>Rounding never crosses a representable value.\<close>

lemma round_mag_le:
  assumes "m \<le> d" and "representable d"
  shows "round_mag m \<le> d"
proof -
  let ?u = "2 ^ excess m :: nat"
  from assms have "?u dvd d" by (meson excess_mono representable_dvd)
  then obtain k where d: "d = ?u * k" by (rule dvdE)
  have split: "m = m div ?u * ?u + m mod ?u" by (rule div_mult_mod_eq [symmetric])
  show ?thesis
  proof (cases m rule: round_mag_cases)
    case down
    then show ?thesis using split assms(1) by linarith
  next
    case up
    have "m div ?u * ?u < ?u * k"
      using split up(2) assms(1) d by linarith
    then have "m div ?u < k" by (metis mult.commute mult_less_cancel2)
    then have "m div ?u + 1 \<le> k" by simp
    then show ?thesis
      using up(1) d by (metis mult.commute mult_le_mono1)
  qed
qed

lemma round_mag_ge:
  assumes "d \<le> m" and "representable d"
  shows "d \<le> round_mag m"
proof (rule ccontr)
  let ?u = "2 ^ excess m :: nat"
  assume "\<not> d \<le> round_mag m"
  then have low: "m div ?u * ?u < d"
    by (cases m rule: round_mag_cases) auto
  have split: "m = m div ?u * ?u + m mod ?u" by (rule div_mult_mod_eq [symmetric])
  have pos: "0 < excess m"
  proof (rule ccontr)
    assume "\<not> 0 < excess m"
    then show False using low assms(1) by simp
  qed
  have "2 ^ 52 * ?u \<le> m" using excess_lower [OF pos] by (simp add: power_add)
  then have "2 ^ 52 \<le> m div ?u" by (simp add: less_eq_div_iff_mult_less_eq)
  then have "2 ^ 52 * ?u < d" using low by (meson le_less_trans mult_le_mono1)
  then have "52 + excess m < bit_length d"
    unfolding less_bit_length_iff by (simp add: power_add)
  then have "?u dvd d" using assms(2) by (intro representable_dvd) (auto simp: excess_def)
  then obtain k where d: "d = k * ?u" by (metis dvd_def mult.commute)
  from low d have "m div ?u < k" by simp
  then have "(m div ?u + 1) * ?u \<le> d" unfolding d by (intro mult_le_mono1) simp
  moreover have "m < (m div ?u + 1) * ?u"
    using dividend_less_div_times [of ?u m] by (simp add: add_mult_distrib)
  ultimately show False using assms(1) by simp
qed

lemma round_mag_less_imp: "representable d \<Longrightarrow> d < round_mag m \<Longrightarrow> d < m"
  using round_mag_le [of m d] by linarith

lemma round_mag_0_iff: "round_mag m = 0 \<longleftrightarrow> m = 0"
  using round_mag_ge [of 1 m] round_mag_small [of 0] representable_small [of 1] by force

section \<open>Values and operations\<close>

datatype double = NaN | Inf bool | Fin bool nat

text \<open>The value 1.0, and the bound every finite magnitude stays below, in units.\<close>

definition one_units :: nat where
  "one_units = 2 ^ 1074"

definition overflow_units :: nat where
  "overflow_units = 2 ^ 2098"

lemma one_units_pos [simp]: "0 < one_units" "one_units \<noteq> 0"
  by (simp_all add: one_units_def)

lemma representable_ints: "q \<le> 2 ^ 53 \<Longrightarrow> representable (q * one_units)"
  unfolding one_units_def by (rule representable_scaled)

lemma below_overflow:
  assumes "m < 2 ^ k" and "k \<le> 2098"
  shows "m < overflow_units"
  unfolding overflow_units_def
  using assms(1) by (rule less_le_trans) (rule power_increasing, use assms(2) in simp_all)

lemma ints_below_overflow:
  assumes "q \<le> 2 ^ 53"
  shows "q * one_units < overflow_units"
proof (rule below_overflow)
  have "q < 2 ^ 54" using assms by (rule le_less_trans) simp
  then have "q * one_units < 2 ^ 54 * one_units" by (simp only: mult_less_cancel2 one_units_pos)
  then show "q * one_units < 2 ^ (54 + 1074)" by (simp only: one_units_def power_add)
qed simp

lemma overflow_units_pos [simp]: "0 < overflow_units"
  by (simp add: overflow_units_def)

fun dvalue :: "double \<Rightarrow> int" where
  "dvalue (Fin neg m) = (if neg then - int m else int m)"
| "dvalue _ = 0"

fun double_ok :: "double \<Rightarrow> bool" where
  "double_ok (Fin neg m) = (representable m \<and> m < overflow_units)"
| "double_ok _ = True"

fun isfinite :: "double \<Rightarrow> bool" where
  "isfinite (Fin _ _) = True"
| "isfinite _ = False"

lemma isfinite_iff: "isfinite x \<longleftrightarrow> (\<exists>neg m. x = Fin neg m)"
  by (cases x) auto

text \<open>The nearest double of \<open>k\<close> units, \<open>k\<close> not zero; too large a magnitude is infinite.\<close>

definition nearest :: "int \<Rightarrow> double" where
  "nearest k =
     (let m = round_mag (nat \<bar>k\<bar>) in if m < overflow_units then Fin (k < 0) m else Inf (k < 0))"

text \<open>\<open>x - y\<close>, \<open>x < y\<close> and \<open>std::fabs\<close>, under the operator names of the library.\<close>

instantiation double :: minus
begin

fun minus_double :: "double \<Rightarrow> double \<Rightarrow> double" where
  "minus_double (Fin a m) (Fin b n) =
     (let k = dvalue (Fin a m) - dvalue (Fin b n)
      in if k = 0 then Fin (a \<and> m = 0 \<and> \<not> b) 0 else nearest k)"
| "minus_double (Inf a) (Inf b) = (if a = b then NaN else Inf a)"
| "minus_double (Inf a) (Fin b n) = Inf a"
| "minus_double (Fin a m) (Inf b) = Inf (\<not> b)"
| "minus_double _ _ = NaN"

instance ..

end

instantiation double :: ord
begin

fun less_double :: "double \<Rightarrow> double \<Rightarrow> bool" where
  "less_double (Fin a m) (Fin b n) = (dvalue (Fin a m) < dvalue (Fin b n))"
| "less_double (Inf a) (Inf b) = (a \<and> \<not> b)"
| "less_double (Inf a) (Fin b n) = a"
| "less_double (Fin a m) (Inf b) = (\<not> b)"
| "less_double _ _ = False"

fun less_eq_double :: "double \<Rightarrow> double \<Rightarrow> bool" where
  "less_eq_double (Fin a m) (Fin b n) = (dvalue (Fin a m) \<le> dvalue (Fin b n))"
| "less_eq_double (Inf a) (Inf b) = (a \<or> \<not> b)"
| "less_eq_double (Inf a) (Fin b n) = a"
| "less_eq_double (Fin a m) (Inf b) = (\<not> b)"
| "less_eq_double _ _ = False"

instance ..

end

instantiation double :: abs
begin

fun abs_double :: "double \<Rightarrow> double" where
  "abs_double (Fin a m) = Fin False m"
| "abs_double (Inf a) = Inf False"
| "abs_double NaN = NaN"

instance ..

end

text \<open>\<open>static_cast<double>\<close> of a signed integer.\<close>

definition double_of_int :: "int \<Rightarrow> double" where
  "double_of_int i = (if i = 0 then Fin False 0 else nearest (i * int one_units))"

text \<open>A \<open>float\<close> counts units of \<open>2^-149\<close>; its cast to \<open>double\<close> is exact.\<close>

datatype float32 = FNaN | FInf bool | FFin bool nat

fun float_ok :: "float32 \<Rightarrow> bool" where
  "float_ok (FFin neg m) = (2 ^ (bit_length m - 24) dvd m \<and> m < 2 ^ 277)"
| "float_ok _ = True"

fun double_of_float :: "float32 \<Rightarrow> double" where
  "double_of_float (FFin neg m) = Fin neg (m * 2 ^ 925)"
| "double_of_float (FInf neg) = Inf neg"
| "double_of_float FNaN = NaN"

section \<open>What the arithmetic guarantees\<close>

lemma double_ok_nearest [simp]: "double_ok (nearest k)"
  by (simp add: nearest_def Let_def representable_round_mag)

lemma double_ok_minus [simp]: "double_ok (x - y)"
  by (cases x; cases y) (auto simp: Let_def representable_small)

lemma double_ok_abs [simp]: "double_ok (abs x) = double_ok x"
  by (cases x) auto

text \<open>
  The absolute rounded difference of two finite doubles is above a finite threshold only if
  the exact difference is; a threshold of zero is compared exactly.
\<close>

definition distance :: "double \<Rightarrow> double \<Rightarrow> int" where
  "distance x y = \<bar>dvalue x - dvalue y\<bar>"

lemma abs_minus_finite:
  assumes "isfinite x" and "isfinite y"
  shows "abs (x - y) =
     (let m = round_mag (nat (distance x y)) in if m < overflow_units then Fin False m else Inf False)"
  using assms
  by (cases x; cases y) (auto simp: Let_def nearest_def distance_def round_mag_small)

lemma above_threshold_exact:
  assumes "isfinite x" and "isfinite y" and "double_ok d" and "isfinite d"
    and "abs (x - y) > d"
  shows "distance x y > dvalue d"
proof -
  obtain neg m where d: "d = Fin neg m" using assms(4) by (auto simp: isfinite_iff)
  let ?r = "round_mag (nat (distance x y))"
  have nonneg: "0 \<le> distance x y" by (simp add: distance_def)
  show ?thesis
  proof (cases neg)
    case True
    have "distance x y \<noteq> 0 \<or> m \<noteq> 0"
      using assms(5) d True by (auto simp: abs_minus_finite [OF assms(1,2)] round_mag_small)
    then show ?thesis using nonneg d True by auto
  next
    case False
    have "m < ?r"
    proof (cases "?r < overflow_units")
      case True
      then show ?thesis
        using assms(5) d False by (simp add: abs_minus_finite [OF assms(1,2)])
    next
      case big: False
      then show ?thesis using assms(3) d by simp
    qed
    moreover have "representable m" using assms(3) d by simp
    ultimately have "m < nat (distance x y)" by (rule round_mag_less_imp [rotated])
    then show ?thesis using d False by simp
  qed
qed

lemma above_zero_iff:
  assumes "isfinite x" and "isfinite y" and "isfinite d" and "dvalue d = 0"
  shows "abs (x - y) > d \<longleftrightarrow> dvalue x \<noteq> dvalue y"
proof -
  obtain neg where d: "d = Fin neg 0"
    using assms(3,4) by (cases d) (simp_all split: if_splits)
  have "0 < round_mag (nat (distance x y)) \<longleftrightarrow> dvalue x \<noteq> dvalue y"
    using round_mag_0_iff [of "nat (distance x y)"] by (auto simp: distance_def)
  then show ?thesis
    by (auto simp: abs_minus_finite [OF assms(1,2)] d Let_def)
qed

lemma below_threshold_within:
  assumes "isfinite x" and "isfinite y" and "isfinite d" and "\<not> abs (x - y) > d"
  shows "int (round_mag (nat (distance x y))) \<le> dvalue d"
  using assms
  by (auto simp: abs_minus_finite isfinite_iff Let_def not_less split: if_splits)

text \<open>On integers of moderate size the comparison is the integer one.\<close>

lemma nearest_scaled_int:
  assumes "i \<noteq> 0" and "\<bar>i\<bar> \<le> 2 ^ 53"
  shows "nearest (i * int one_units) = Fin (i < 0) (nat \<bar>i\<bar> * one_units)"
proof -
  have mag: "nat \<bar>i * int one_units\<bar> = nat \<bar>i\<bar> * one_units"
    by (simp add: abs_mult nat_mult_distrib)
  have "nat \<bar>i\<bar> \<le> 2 ^ 53" using assms(2) by simp
  then show ?thesis
    using one_units_pos
    by (simp add: nearest_def mag round_mag_id representable_ints ints_below_overflow
        mult_less_0_iff)
qed

lemma double_of_int_Fin:
  "\<bar>i\<bar> \<le> 2 ^ 53 \<Longrightarrow> double_of_int i = Fin (i < 0) (nat \<bar>i\<bar> * one_units)"
  by (cases "i = 0") (simp_all add: double_of_int_def nearest_scaled_int)

lemma double_of_int_finite: "\<bar>i\<bar> \<le> 2 ^ 53 \<Longrightarrow> isfinite (double_of_int i)"
  by (simp add: double_of_int_Fin)

lemma dvalue_double_of_int: "\<bar>i\<bar> \<le> 2 ^ 53 \<Longrightarrow> dvalue (double_of_int i) = i * int one_units"
  by (simp add: double_of_int_Fin)

lemma double_of_int_minus:
  assumes "\<bar>i\<bar> \<le> 2 ^ 53" and "\<bar>j\<bar> \<le> 2 ^ 53" and "\<bar>i - j\<bar> \<le> 2 ^ 53"
  shows "double_of_int i - double_of_int j = double_of_int (i - j)"
proof -
  have "dvalue (double_of_int i) - dvalue (double_of_int j) = (i - j) * int one_units"
    using assms by (simp add: dvalue_double_of_int left_diff_distrib)
  moreover have "double_of_int (i - j) =
     (if i = j then Fin False 0 else nearest ((i - j) * int one_units))"
    by (simp add: double_of_int_def)
  ultimately show ?thesis
    using assms(1,2) by (simp add: double_of_int_Fin Let_def)
qed

lemma double_of_int_abs: "\<bar>i\<bar> \<le> 2 ^ 53 \<Longrightarrow> abs (double_of_int i) = double_of_int \<bar>i\<bar>"
  by (simp add: double_of_int_Fin)

lemma double_of_int_less:
  "\<bar>i\<bar> \<le> 2 ^ 53 \<Longrightarrow> \<bar>j\<bar> \<le> 2 ^ 53 \<Longrightarrow> double_of_int i < double_of_int j \<longleftrightarrow> i < j"
  using dvalue_double_of_int [of i] dvalue_double_of_int [of j]
  by (simp add: double_of_int_Fin)

lemma double_ok_of_int [simp]: "double_ok (double_of_int i)"
  by (simp add: double_of_int_def representable_small)

lemma double_ok_of_float:
  assumes "float_ok x"
  shows "double_ok (double_of_float x)"
proof (cases x)
  case (FFin neg m)
  let ?e = "bit_length m - 24"
  from assms FFin obtain q where q: "m = q * 2 ^ ?e" and lt: "m < 2 ^ 277"
    by (auto elim!: dvdE simp: mult.commute)
  have "m < 2 ^ (24 + ?e)"
    using bit_length_le_iff [of m "bit_length m"] by (auto intro: less_le_trans power_increasing)
  then have "q * 2 ^ ?e < 2 ^ 24 * 2 ^ ?e" using q by (simp add: power_add)
  then have "q \<le> 2 ^ 53" by simp
  then have "representable (q * 2 ^ (?e + 925))" by (rule representable_scaled)
  moreover have "m * 2 ^ 925 = q * 2 ^ (?e + 925)"
    by (subst q) (simp add: power_add)
  moreover have "m * 2 ^ 925 < overflow_units"
  proof (rule below_overflow)
    have "m * 2 ^ 925 < 2 ^ 277 * (2 :: nat) ^ 925" using lt by (simp only: mult_less_cancel2) simp
    then show "m * 2 ^ 925 < 2 ^ (277 + 925)" by (simp only: power_add)
  qed simp
  ultimately show ?thesis using FFin by simp
qed auto

lemmas double_of_int_arith =
  double_of_int_minus double_of_int_abs double_of_int_less double_of_int_finite

end
