(* ===== verification/AppConfig.thy ===== *)
theory AppConfig
  imports Float64
begin

text \<open>
  The configuration records of \<open>src/src/config/AppConfig.hpp\<close> with their default member
  initialisers. \<open>end\<close> and \<open>start\<close> of a \<open>PointConfig\<close> are \<open>pc_end\<close> and \<open>pc_start\<close>.
\<close>

record PointConfig =
  pc_start :: u16
  pc_end :: u16
  event_class :: string
  deadband :: "double option"
  static_variation :: string
  event_variation :: string

definition default_PointConfig :: PointConfig where
  "default_PointConfig =
     \<lparr>pc_start = 0, pc_end = 0, event_class = '''', deadband = None,
      static_variation = '''', event_variation = ''''\<rparr>"

record PointDatabaseConfig =
  binary_input :: "PointConfig list"
  binary_output_status :: "PointConfig list"
  analog_input :: "PointConfig list"
  analog_output_status :: "PointConfig list"

definition default_PointDatabaseConfig :: PointDatabaseConfig where
  "default_PointDatabaseConfig =
     \<lparr>binary_input = [], binary_output_status = [], analog_input = [], analog_output_status = []\<rparr>"

definition point_database_empty :: "PointDatabaseConfig \<Rightarrow> bool" where
  "point_database_empty db \<longleftrightarrow>
     binary_input db = [] \<and> binary_output_status db = []
     \<and> analog_input db = [] \<and> analog_output_status db = []"

record EventBufferConfig =
  max_binary_events :: u16
  max_double_binary_events :: u16
  max_analog_events :: u16
  max_counter_events :: u16
  max_frozen_counter_events :: u16
  max_binary_output_status_events :: u16
  max_analog_output_status_events :: u16
  max_octet_string_events :: u16

definition default_EventBufferConfig :: EventBufferConfig where
  "default_EventBufferConfig =
     \<lparr>max_binary_events = 50, max_double_binary_events = 0, max_analog_events = 50,
      max_counter_events = 0, max_frozen_counter_events = 0,
      max_binary_output_status_events = 0, max_analog_output_status_events = 0,
      max_octet_string_events = 0\<rparr>"

record UnsolicitedConfig =
  enabled :: bool
  class_mask :: "string list"

definition default_UnsolicitedConfig :: UnsolicitedConfig where
  "default_UnsolicitedConfig = \<lparr>enabled = True, class_mask = [''class1'', ''class2'']\<rparr>"

record AppConfig =
  grpc_listen_address :: string
  dnp3_channel_host :: string
  dnp3_channel_port :: u16
  dnp3_local_address :: u16
  dnp3_remote_address :: u16
  log_level :: string
  log_file :: string
  log_max_size_mb :: u32
  log_max_files :: u32
  command_timeout_ms :: u32
  command_mode :: string
  event_buffer :: EventBufferConfig
  unsolicited :: UnsolicitedConfig
  point_database :: PointDatabaseConfig

definition default_AppConfig :: AppConfig where
  "default_AppConfig =
     \<lparr>grpc_listen_address = ''0.0.0.0:50051'',
      dnp3_channel_host = ''0.0.0.0'',
      dnp3_channel_port = 20000,
      dnp3_local_address = 1024,
      dnp3_remote_address = 1,
      log_level = ''info'',
      log_file = '''',
      log_max_size_mb = 5,
      log_max_files = 3,
      command_timeout_ms = 3000,
      command_mode = ''direct_operate'',
      event_buffer = default_EventBufferConfig,
      unsolicited = default_UnsolicitedConfig,
      point_database = default_PointDatabaseConfig\<rparr>"

lemmas config_defaults =
  default_PointConfig_def default_PointDatabaseConfig_def default_EventBufferConfig_def
  default_UnsolicitedConfig_def default_AppConfig_def

end
