(* ===== verification/CppText.thy ===== *)
theory CppText
  imports Prelude
begin

text \<open>
  The standard library routines on text that the sources call: \<open>std::stoul\<close>,
  \<open>std::stoi\<close> and the decimal output of \<open>fmt\<close> / \<open>std::format\<close> for integers.
  The width of \<open>unsigned long\<close> is a parameter: 64 on amd64, 32 on armhf, the two
  packages the repository builds.
\<close>

section \<open>Decimal digits\<close>

definition is_digit :: "char \<Rightarrow> bool" where
  "is_digit c \<longleftrightarrow> 48 \<le> (of_char c :: nat) \<and> (of_char c :: nat) \<le> 57"

definition is_space :: "char \<Rightarrow> bool" where
  "is_space c \<longleftrightarrow> (of_char c :: nat) = 32 \<or> (9 \<le> (of_char c :: nat) \<and> (of_char c :: nat) \<le> 13)"

definition digit_char :: "nat \<Rightarrow> char" where
  "digit_char d = char_of (48 + d)"

fun digits_value :: "nat \<Rightarrow> string \<Rightarrow> nat" where
  "digits_value acc [] = acc"
| "digits_value acc (c # cs) = digits_value (10 * acc + (of_char c - 48)) cs"

fun show_nat :: "nat \<Rightarrow> string" where
  "show_nat n = (if n < 10 then [digit_char n] else show_nat (n div 10) @ [digit_char (n mod 10)])"

declare show_nat.simps [simp del]

lemma of_char_digit_char [simp]: "d < 10 \<Longrightarrow> (of_char (digit_char d) :: nat) = 48 + d"
  by (simp add: digit_char_def)

lemma is_digit_digit_char [simp]: "d < 10 \<Longrightarrow> is_digit (digit_char d)"
  by (simp add: is_digit_def)

lemma digit_not_space: "is_digit c \<Longrightarrow> \<not> is_space c"
  by (auto simp: is_digit_def is_space_def)

lemma digits_value_append: "digits_value acc (xs @ ys) = digits_value (digits_value acc xs) ys"
  by (induction xs arbitrary: acc) auto

lemma show_nat_digits: "\<forall>c \<in> set (show_nat n). is_digit c"
proof (induction n rule: show_nat.induct)
  case (1 n)
  then show ?case by (subst show_nat.simps) auto
qed

lemma show_nat_not_Nil [simp]: "show_nat n \<noteq> []"
  by (subst show_nat.simps) simp

lemma digits_value_show_nat: "digits_value 0 (show_nat n) = n"
proof (induction n rule: show_nat.induct)
  case (1 n)
  then show ?case
    by (subst show_nat.simps) (auto simp: digits_value_append)
qed

section \<open>std::stoul and std::stoi\<close>

datatype conversion_error = invalid_argument | out_of_range

text \<open>
  \<open>strtoul\<close> in base 10: leading white space, one optional sign, then as many digits as
  there are; trailing text is ignored.
\<close>

definition is_negative :: "string \<Rightarrow> bool" where
  "is_negative s = (s \<noteq> [] \<and> hd s = CHR ''-'')"

definition unsigned_part :: "string \<Rightarrow> string" where
  "unsigned_part s =
     takeWhile is_digit
       (if s \<noteq> [] \<and> (hd s = CHR ''-'' \<or> hd s = CHR ''+'') then tl s else s)"

definition stoul :: "nat \<Rightarrow> string \<Rightarrow> conversion_error + nat" where
  "stoul width text =
     (let s = dropWhile is_space text; ds = unsigned_part s; v = digits_value 0 ds
      in if ds = [] then Inl invalid_argument
         else if 2 ^ width \<le> v then Inl out_of_range
         else Inr (if is_negative s then (2 ^ width - v) mod 2 ^ width else v))"

definition stoi :: "string \<Rightarrow> conversion_error + int" where
  "stoi text =
     (let s = dropWhile is_space text; ds = unsigned_part s;
          v = (if is_negative s then - int (digits_value 0 ds) else int (digits_value 0 ds))
      in if ds = [] then Inl invalid_argument
         else if v < - (2 ^ 31) \<or> 2 ^ 31 \<le> v then Inl out_of_range
         else Inr v)"

lemma unsigned_part_digits:
  assumes "ds \<noteq> []" and "\<forall>c \<in> set ds. is_digit c"
  shows "unsigned_part ds = ds" and "\<not> is_negative ds" and "dropWhile is_space ds = ds"
proof -
  obtain c cs where ds: "ds = c # cs" and c: "is_digit c"
    using assms by (cases ds) auto
  have "c \<noteq> CHR ''-''" "c \<noteq> CHR ''+''" using c by (auto simp: is_digit_def)
  then show "unsigned_part ds = ds" and "\<not> is_negative ds"
    using assms(2) by (auto simp: unsigned_part_def is_negative_def ds)
  show "dropWhile is_space ds = ds"
    using digit_not_space [OF c] by (simp add: ds)
qed

lemma stoul_digits:
  assumes "ds \<noteq> []" and "\<forall>c \<in> set ds. is_digit c"
  shows "stoul width ds =
     (if 2 ^ width \<le> digits_value 0 ds then Inl out_of_range else Inr (digits_value 0 ds))"
  using assms by (simp add: stoul_def unsigned_part_digits Let_def)

lemma stoul_show_nat:
  "stoul width (show_nat n) = (if 2 ^ width \<le> n then Inl out_of_range else Inr n)"
  by (subst stoul_digits) (simp_all add: show_nat_digits digits_value_show_nat)

lemma stoul_range: "stoul width text = Inr v \<Longrightarrow> v < 2 ^ width"
  by (auto simp: stoul_def Let_def split: if_splits)

lemma stoi_range: "stoi text = Inr v \<Longrightarrow> - (2 ^ 31) \<le> v \<and> v < 2 ^ 31"
  by (auto simp: stoi_def Let_def split: if_splits)

section \<open>Signed decimal output\<close>

definition show_int :: "int \<Rightarrow> string" where
  "show_int i = (if i < 0 then CHR ''-'' # show_nat (nat (- i)) else show_nat (nat i))"

lemma unsigned_part_minus:
  assumes "ds \<noteq> []" and "\<forall>c \<in> set ds. is_digit c"
  shows "unsigned_part (CHR ''-'' # ds) = ds" and "is_negative (CHR ''-'' # ds)"
    and "dropWhile is_space (CHR ''-'' # ds) = CHR ''-'' # ds"
  using assms by (auto simp: unsigned_part_def is_negative_def is_space_def)

lemma stoi_show_int: "- (2 ^ 31) \<le> i \<Longrightarrow> i < 2 ^ 31 \<Longrightarrow> stoi (show_int i) = Inr i"
proof (cases "i < 0")
  case True
  assume "- (2 ^ 31) \<le> i"
  moreover have "dropWhile is_space (show_int i) = show_int i"
    "unsigned_part (show_int i) = show_nat (nat (- i))" "is_negative (show_int i)"
    using True unsigned_part_minus [OF show_nat_not_Nil show_nat_digits, of "nat (- i)"]
    by (simp_all only: show_int_def if_True)
  ultimately show ?thesis using True
    by (simp only: stoi_def Let_def digits_value_show_nat show_nat_not_Nil if_True if_False) simp
next
  case False
  assume "i < 2 ^ 31"
  with False show ?thesis
    by (simp add: stoi_def show_int_def Let_def unsigned_part_digits show_nat_digits
        digits_value_show_nat)
qed

lemma stoi_show_nat: "n < 2 ^ 31 \<Longrightarrow> stoi (show_nat n) = Inr (int n)"
  using stoi_show_int [of "int n"] by (simp add: show_int_def)

end
