(* ===== verification/ConfigLoader.thy ===== *)
theory ConfigLoader
  imports AppConfig CppText
begin

text \<open>
  \<open>src/src/config/ConfigLoader.cpp\<close>: the JSON file is read into a default \<open>AppConfig\<close>, then
  environment variables override it. nlohmann::json is not part of the repository: its
  accessors are the fields of \<open>json_api\<close>, a parameter of every definition that uses them,
  over an arbitrary type of JSON values and of the exceptions they throw. The file system
  and the environment are parameters as well.
\<close>

section \<open>Environment variables\<close>

definition env_or :: "(string \<Rightarrow> string option) \<Rightarrow> string \<Rightarrow> string \<Rightarrow> string" where
  "env_or getenv name fallback = (case getenv name of Some val \<Rightarrow> val | None \<Rightarrow> fallback)"

definition env_uint16 :: "nat \<Rightarrow> (string \<Rightarrow> string option) \<Rightarrow> string \<Rightarrow> u16 \<Rightarrow> u16" where
  "env_uint16 width getenv name fallback =
     (case getenv name of
        None \<Rightarrow> fallback
      | Some val \<Rightarrow> (case stoul width val of Inl e \<Rightarrow> fallback | Inr v \<Rightarrow> of_nat v))"

definition env_uint32 :: "nat \<Rightarrow> (string \<Rightarrow> string option) \<Rightarrow> string \<Rightarrow> u32 \<Rightarrow> u32" where
  "env_uint32 width getenv name fallback =
     (case getenv name of
        None \<Rightarrow> fallback
      | Some val \<Rightarrow> (case stoul width val of Inl e \<Rightarrow> fallback | Inr v \<Rightarrow> of_nat v))"

section \<open>The JSON file\<close>

record ('j, 'x) json_api =
  has_key :: "'j \<Rightarrow> string \<Rightarrow> bool"
  at_key :: "'j \<Rightarrow> string \<Rightarrow> 'j"
  at_index :: "'j \<Rightarrow> nat \<Rightarrow> ('x, 'j) outcome"
  elements :: "'j \<Rightarrow> 'j list"
  get_uint16 :: "'j \<Rightarrow> ('x, u16) outcome"
  get_uint32 :: "'j \<Rightarrow> ('x, u32) outcome"
  get_bool :: "'j \<Rightarrow> ('x, bool) outcome"
  get_double :: "'j \<Rightarrow> ('x, double) outcome"
  get_string :: "'j \<Rightarrow> ('x, string) outcome"

text \<open>The statement \<open>if (j.contains(key)) obj.field = j[key].get<T>();\<close>.\<close>

definition read_field ::
  "('j, 'x) json_api \<Rightarrow> 'j \<Rightarrow> string \<Rightarrow> ('j \<Rightarrow> ('x, 'v) outcome) \<Rightarrow> ('v \<Rightarrow> 'r \<Rightarrow> 'r) \<Rightarrow> 'r
     \<Rightarrow> ('x, 'r) outcome" where
  "read_field api j key get assign obj =
     (if has_key api j key
      then and_then (get (at_key api j key)) (\<lambda>v. Ret (assign v obj))
      else Ret obj)"

text \<open>The statement \<open>if (j.contains(key)) parse(j[key], obj.part);\<close>.\<close>

definition read_part ::
  "('j, 'x) json_api \<Rightarrow> 'j \<Rightarrow> string \<Rightarrow> ('j \<Rightarrow> 'p \<Rightarrow> ('x, 'p) outcome) \<Rightarrow> ('r \<Rightarrow> 'p)
     \<Rightarrow> ('p \<Rightarrow> 'r \<Rightarrow> 'r) \<Rightarrow> 'r \<Rightarrow> ('x, 'r) outcome" where
  "read_part api j key parse part assign obj =
     (if has_key api j key
      then and_then (parse (at_key api j key) (part obj)) (\<lambda>p. Ret (assign p obj))
      else Ret obj)"

definition parse_point_position ::
  "('j, 'x) json_api \<Rightarrow> 'j \<Rightarrow> PointConfig \<Rightarrow> ('x, PointConfig) outcome" where
  "parse_point_position api entry pc =
     (if has_key api entry ''range'' then
        (let range = at_key api entry ''range'' in
         and_then (and_then (at_index api range 0) (get_uint16 api)) (\<lambda>first.
         and_then (and_then (at_index api range 1) (get_uint16 api)) (\<lambda>final.
           Ret (pc\<lparr>pc_start := first, pc_end := final\<rparr>))))
      else if has_key api entry ''index'' then
        and_then (get_uint16 api (at_key api entry ''index'')) (\<lambda>index.
          Ret (pc\<lparr>pc_start := index, pc_end := index\<rparr>))
      else Ret pc)"

definition parsePointConfig :: "('j, 'x) json_api \<Rightarrow> 'j \<Rightarrow> ('x, PointConfig) outcome" where
  "parsePointConfig api entry =
     run_block
       [parse_point_position api entry,
        read_field api entry ''class'' (get_string api) (\<lambda>v pc. pc\<lparr>event_class := v\<rparr>),
        read_field api entry ''deadband'' (get_double api) (\<lambda>v pc. pc\<lparr>deadband := Some v\<rparr>),
        read_field api entry ''static_variation'' (get_string api)
          (\<lambda>v pc. pc\<lparr>static_variation := v\<rparr>),
        read_field api entry ''event_variation'' (get_string api)
          (\<lambda>v pc. pc\<lparr>event_variation := v\<rparr>)]
       default_PointConfig"

fun parse_entries ::
  "('j, 'x) json_api \<Rightarrow> 'j list \<Rightarrow> PointConfig list \<Rightarrow> ('x, PointConfig list) outcome" where
  "parse_entries api [] out = Ret out"
| "parse_entries api (entry # entries) out =
     and_then (parsePointConfig api entry) (\<lambda>pc. parse_entries api entries (out @ [pc]))"

definition parsePointConfigs ::
  "('j, 'x) json_api \<Rightarrow> 'j \<Rightarrow> PointConfig list \<Rightarrow> ('x, PointConfig list) outcome" where
  "parsePointConfigs api arr out = parse_entries api (elements api arr) out"

definition parseEventBuffer ::
  "('j, 'x) json_api \<Rightarrow> 'j \<Rightarrow> EventBufferConfig \<Rightarrow> ('x, EventBufferConfig) outcome" where
  "parseEventBuffer api j =
     run_block
       [read_field api j ''max_binary_events'' (get_uint16 api)
          (\<lambda>v eb. eb\<lparr>max_binary_events := v\<rparr>),
        read_field api j ''max_double_binary_events'' (get_uint16 api)
          (\<lambda>v eb. eb\<lparr>max_double_binary_events := v\<rparr>),
        read_field api j ''max_analog_events'' (get_uint16 api)
          (\<lambda>v eb. eb\<lparr>max_analog_events := v\<rparr>),
        read_field api j ''max_counter_events'' (get_uint16 api)
          (\<lambda>v eb. eb\<lparr>max_counter_events := v\<rparr>),
        read_field api j ''max_frozen_counter_events'' (get_uint16 api)
          (\<lambda>v eb. eb\<lparr>max_frozen_counter_events := v\<rparr>),
        read_field api j ''max_binary_output_status_events'' (get_uint16 api)
          (\<lambda>v eb. eb\<lparr>max_binary_output_status_events := v\<rparr>),
        read_field api j ''max_analog_output_status_events'' (get_uint16 api)
          (\<lambda>v eb. eb\<lparr>max_analog_output_status_events := v\<rparr>),
        read_field api j ''max_octet_string_events'' (get_uint16 api)
          (\<lambda>v eb. eb\<lparr>max_octet_string_events := v\<rparr>)]"

fun read_strings :: "('j, 'x) json_api \<Rightarrow> 'j list \<Rightarrow> string list \<Rightarrow> ('x, string list) outcome" where
  "read_strings api [] out = Ret out"
| "read_strings api (c # cs) out =
     and_then (get_string api c) (\<lambda>s. read_strings api cs (out @ [s]))"

definition parse_class_mask ::
  "('j, 'x) json_api \<Rightarrow> 'j \<Rightarrow> string list \<Rightarrow> ('x, string list) outcome" where
  "parse_class_mask api arr old = read_strings api (elements api arr) []"

definition parseUnsolicited ::
  "('j, 'x) json_api \<Rightarrow> 'j \<Rightarrow> UnsolicitedConfig \<Rightarrow> ('x, UnsolicitedConfig) outcome" where
  "parseUnsolicited api j =
     run_block
       [read_field api j ''enabled'' (get_bool api) (\<lambda>v us. us\<lparr>enabled := v\<rparr>),
        read_part api j ''class_mask'' (parse_class_mask api) class_mask
          (\<lambda>v us. us\<lparr>class_mask := v\<rparr>)]"

definition parsePointDatabase ::
  "('j, 'x) json_api \<Rightarrow> 'j \<Rightarrow> PointDatabaseConfig \<Rightarrow> ('x, PointDatabaseConfig) outcome" where
  "parsePointDatabase api j =
     run_block
       [read_part api j ''binary_input'' (parsePointConfigs api) binary_input
          (\<lambda>v db. db\<lparr>binary_input := v\<rparr>),
        read_part api j ''binary_output_status'' (parsePointConfigs api) binary_output_status
          (\<lambda>v db. db\<lparr>binary_output_status := v\<rparr>),
        read_part api j ''analog_input'' (parsePointConfigs api) analog_input
          (\<lambda>v db. db\<lparr>analog_input := v\<rparr>),
        read_part api j ''analog_output_status'' (parsePointConfigs api) analog_output_status
          (\<lambda>v db. db\<lparr>analog_output_status := v\<rparr>)]"

text \<open>The statements of \<open>load_from_json\<close> after parsing, in their order.\<close>

definition apply_json :: "('j, 'x) json_api \<Rightarrow> 'j \<Rightarrow> AppConfig \<Rightarrow> ('x, AppConfig) outcome" where
  "apply_json api j =
     run_block
       [read_field api j ''grpc_listen_address'' (get_string api)
          (\<lambda>v cfg. cfg\<lparr>grpc_listen_address := v\<rparr>),
        read_field api j ''dnp3_channel_host'' (get_string api)
          (\<lambda>v cfg. cfg\<lparr>dnp3_channel_host := v\<rparr>),
        read_field api j ''dnp3_channel_port'' (get_uint16 api)
          (\<lambda>v cfg. cfg\<lparr>dnp3_channel_port := v\<rparr>),
        read_field api j ''dnp3_local_address'' (get_uint16 api)
          (\<lambda>v cfg. cfg\<lparr>dnp3_local_address := v\<rparr>),
        read_field api j ''dnp3_remote_address'' (get_uint16 api)
          (\<lambda>v cfg. cfg\<lparr>dnp3_remote_address := v\<rparr>),
        read_field api j ''log_level'' (get_string api) (\<lambda>v cfg. cfg\<lparr>log_level := v\<rparr>),
        read_field api j ''log_file'' (get_string api) (\<lambda>v cfg. cfg\<lparr>log_file := v\<rparr>),
        read_field api j ''log_max_size_mb'' (get_uint32 api)
          (\<lambda>v cfg. cfg\<lparr>log_max_size_mb := v\<rparr>),
        read_field api j ''log_max_files'' (get_uint32 api) (\<lambda>v cfg. cfg\<lparr>log_max_files := v\<rparr>),
        read_field api j ''command_timeout_ms'' (get_uint32 api)
          (\<lambda>v cfg. cfg\<lparr>command_timeout_ms := v\<rparr>),
        read_field api j ''command_mode'' (get_string api) (\<lambda>v cfg. cfg\<lparr>command_mode := v\<rparr>),
        read_part api j ''event_buffer'' (parseEventBuffer api) event_buffer
          (\<lambda>v cfg. cfg\<lparr>event_buffer := v\<rparr>),
        read_part api j ''unsolicited'' (parseUnsolicited api) unsolicited
          (\<lambda>v cfg. cfg\<lparr>unsolicited := v\<rparr>),
        read_part api j ''point_database'' (parsePointDatabase api) point_database
          (\<lambda>v cfg. cfg\<lparr>point_database := v\<rparr>)]"

text \<open>
  \<open>read_file\<close> yields the content of a file that can be opened; \<open>parse\<close> yields the text
  \<open>what()\<close> of the \<open>parse_error\<close>, or the document.
\<close>

definition load_from_json ::
  "('j, 'x) json_api \<Rightarrow> (string \<Rightarrow> string option) \<Rightarrow> (string \<Rightarrow> string + 'j) \<Rightarrow> string \<Rightarrow> AppConfig
     \<Rightarrow> ('x, string + AppConfig) outcome" where
  "load_from_json api read_file parse path cfg =
     (case read_file path of
        None \<Rightarrow> Ret (Inl (''cannot open config file: '' @ path))
      | Some content \<Rightarrow>
          (case parse content of
             Inl what \<Rightarrow> Ret (Inl (''JSON parse error: '' @ what))
           | Inr j \<Rightarrow> and_then (apply_json api j cfg) (\<lambda>cfg'. Ret (Inr cfg'))))"

section \<open>Layering\<close>

definition apply_environment ::
  "nat \<Rightarrow> (string \<Rightarrow> string option) \<Rightarrow> AppConfig \<Rightarrow> AppConfig" where
  "apply_environment width getenv cfg =
     cfg\<lparr>
       grpc_listen_address :=
         env_or getenv ''DNP3_BRIDGE_GRPC_ADDRESS'' (grpc_listen_address cfg),
       dnp3_channel_host := env_or getenv ''DNP3_BRIDGE_DNP3_HOST'' (dnp3_channel_host cfg),
       dnp3_channel_port :=
         env_uint16 width getenv ''DNP3_BRIDGE_DNP3_PORT'' (dnp3_channel_port cfg),
       dnp3_local_address :=
         env_uint16 width getenv ''DNP3_BRIDGE_DNP3_LOCAL_ADDR'' (dnp3_local_address cfg),
       dnp3_remote_address :=
         env_uint16 width getenv ''DNP3_BRIDGE_DNP3_REMOTE_ADDR'' (dnp3_remote_address cfg),
       log_level := env_or getenv ''DNP3_BRIDGE_LOG_LEVEL'' (log_level cfg),
       log_file := env_or getenv ''DNP3_BRIDGE_LOG_FILE'' (log_file cfg),
       log_max_size_mb :=
         env_uint32 width getenv ''DNP3_BRIDGE_LOG_MAX_SIZE_MB'' (log_max_size_mb cfg),
       log_max_files :=
         env_uint32 width getenv ''DNP3_BRIDGE_LOG_MAX_FILES'' (log_max_files cfg),
       command_timeout_ms :=
         env_uint32 width getenv ''DNP3_BRIDGE_COMMAND_TIMEOUT_MS'' (command_timeout_ms cfg),
       command_mode := env_or getenv ''DNP3_BRIDGE_COMMAND_MODE'' (command_mode cfg)\<rparr>"

definition file_layer ::
  "('j, 'x) json_api \<Rightarrow> (string \<Rightarrow> string option) \<Rightarrow> (string \<Rightarrow> string + 'j) \<Rightarrow> string option
     \<Rightarrow> ('x, string + AppConfig) outcome" where
  "file_layer api read_file parse path =
     (case path of
        None \<Rightarrow> Ret (Inr default_AppConfig)
      | Some p \<Rightarrow> load_from_json api read_file parse p default_AppConfig)"

definition load ::
  "('j, 'x) json_api \<Rightarrow> (string \<Rightarrow> string option) \<Rightarrow> (string \<Rightarrow> string + 'j) \<Rightarrow> nat
     \<Rightarrow> (string \<Rightarrow> string option) \<Rightarrow> string option \<Rightarrow> ('x, string + AppConfig) outcome" where
  "load api read_file parse width getenv path =
     and_then (file_layer api read_file parse path)
       (\<lambda>result. case result of
          Inl e \<Rightarrow> Ret (Inl e)
        | Inr cfg \<Rightarrow> Ret (Inr (apply_environment width getenv cfg)))"

lemma load_layers:
  "load api read_file parse width getenv path = Ret (Inr cfg) \<longleftrightarrow>
     (\<exists>base. file_layer api read_file parse path = Ret (Inr base)
        \<and> cfg = apply_environment width getenv base)"
  "load api read_file parse width getenv path = Ret (Inl e) \<longleftrightarrow>
     file_layer api read_file parse path = Ret (Inl e)"
  "load api read_file parse width getenv path = Throw x \<longleftrightarrow>
     file_layer api read_file parse path = Throw x"
  by (cases "file_layer api read_file parse path"; auto simp: load_def split: sum.splits)+

section \<open>What the file layer yields\<close>

text \<open>
  \<open>field_is\<close> and \<open>part_is\<close> say what a member holds after its statement: the value of the key
  where the key is present, its old value otherwise.
\<close>

definition field_is ::
  "('j, 'x) json_api \<Rightarrow> 'j \<Rightarrow> string \<Rightarrow> ('j \<Rightarrow> ('x, 'v) outcome) \<Rightarrow> 'v \<Rightarrow> 'v \<Rightarrow> bool" where
  "field_is api j key get old v =
     (if has_key api j key then get (at_key api j key) = Ret v else v = old)"

definition part_is ::
  "('j, 'x) json_api \<Rightarrow> 'j \<Rightarrow> string \<Rightarrow> ('j \<Rightarrow> 'p \<Rightarrow> ('x, 'p) outcome) \<Rightarrow> 'p \<Rightarrow> 'p \<Rightarrow> bool" where
  "part_is api j key parse old v =
     (if has_key api j key then parse (at_key api j key) old = Ret v else v = old)"

lemma read_field_then:
  assumes "\<And>obj. assign (fld obj) obj = obj"
  shows "and_then (read_field api j key get assign obj) rest = Ret result \<longleftrightarrow>
     (\<exists>v. field_is api j key get (fld obj) v \<and> rest (assign v obj) = Ret result)"
  using assms by (auto simp: read_field_def field_is_def and_then_eq_Ret)

lemma read_part_then:
  assumes "\<And>obj. assign (fld obj) obj = obj"
  shows "and_then (read_part api j key parse fld assign obj) rest = Ret result \<longleftrightarrow>
     (\<exists>v. part_is api j key parse (fld obj) v \<and> rest (assign v obj) = Ret result)"
  using assms by (auto simp: read_part_def part_is_def and_then_eq_Ret)

lemmas config_statements =
  read_field_then [where assign = "\<lambda>v cfg :: AppConfig. cfg\<lparr>grpc_listen_address := v\<rparr>" and fld = grpc_listen_address]
  read_field_then [where assign = "\<lambda>v cfg :: AppConfig. cfg\<lparr>dnp3_channel_host := v\<rparr>" and fld = dnp3_channel_host]
  read_field_then [where assign = "\<lambda>v cfg :: AppConfig. cfg\<lparr>dnp3_channel_port := v\<rparr>" and fld = dnp3_channel_port]
  read_field_then [where assign = "\<lambda>v cfg :: AppConfig. cfg\<lparr>dnp3_local_address := v\<rparr>" and fld = dnp3_local_address]
  read_field_then [where assign = "\<lambda>v cfg :: AppConfig. cfg\<lparr>dnp3_remote_address := v\<rparr>" and fld = dnp3_remote_address]
  read_field_then [where assign = "\<lambda>v cfg :: AppConfig. cfg\<lparr>log_level := v\<rparr>" and fld = log_level]
  read_field_then [where assign = "\<lambda>v cfg :: AppConfig. cfg\<lparr>log_file := v\<rparr>" and fld = log_file]
  read_field_then [where assign = "\<lambda>v cfg :: AppConfig. cfg\<lparr>log_max_size_mb := v\<rparr>" and fld = log_max_size_mb]
  read_field_then [where assign = "\<lambda>v cfg :: AppConfig. cfg\<lparr>log_max_files := v\<rparr>" and fld = log_max_files]
  read_field_then [where assign = "\<lambda>v cfg :: AppConfig. cfg\<lparr>command_timeout_ms := v\<rparr>" and fld = command_timeout_ms]
  read_field_then [where assign = "\<lambda>v cfg :: AppConfig. cfg\<lparr>command_mode := v\<rparr>" and fld = command_mode]
  read_part_then [where assign = "\<lambda>v cfg :: AppConfig. cfg\<lparr>event_buffer := v\<rparr>" and fld = event_buffer]
  read_part_then [where assign = "\<lambda>v cfg :: AppConfig. cfg\<lparr>unsolicited := v\<rparr>" and fld = unsolicited]
  read_part_then [where assign = "\<lambda>v cfg :: AppConfig. cfg\<lparr>point_database := v\<rparr>" and fld = point_database]

text \<open>
  \<open>load_from_json\<close> accepts a parsed document exactly when every recognised key that is
  present has the type its member asks for, and then each of the fourteen members of the
  configuration holds the value of its own key, or keeps its default where the key is
  absent; no member is read from another key and none is lost.
\<close>

theorem apply_json_members:
  "apply_json api j cfg = Ret cfg' \<longleftrightarrow>
     field_is api j ''grpc_listen_address'' (get_string api) (grpc_listen_address cfg) (grpc_listen_address cfg')
     \<and> field_is api j ''dnp3_channel_host'' (get_string api) (dnp3_channel_host cfg) (dnp3_channel_host cfg')
     \<and> field_is api j ''dnp3_channel_port'' (get_uint16 api) (dnp3_channel_port cfg) (dnp3_channel_port cfg')
     \<and> field_is api j ''dnp3_local_address'' (get_uint16 api) (dnp3_local_address cfg) (dnp3_local_address cfg')
     \<and> field_is api j ''dnp3_remote_address'' (get_uint16 api) (dnp3_remote_address cfg) (dnp3_remote_address cfg')
     \<and> field_is api j ''log_level'' (get_string api) (log_level cfg) (log_level cfg')
     \<and> field_is api j ''log_file'' (get_string api) (log_file cfg) (log_file cfg')
     \<and> field_is api j ''log_max_size_mb'' (get_uint32 api) (log_max_size_mb cfg) (log_max_size_mb cfg')
     \<and> field_is api j ''log_max_files'' (get_uint32 api) (log_max_files cfg) (log_max_files cfg')
     \<and> field_is api j ''command_timeout_ms'' (get_uint32 api) (command_timeout_ms cfg) (command_timeout_ms cfg')
     \<and> field_is api j ''command_mode'' (get_string api) (command_mode cfg) (command_mode cfg')
     \<and> part_is api j ''event_buffer'' (parseEventBuffer api) (event_buffer cfg) (event_buffer cfg')
     \<and> part_is api j ''unsolicited'' (parseUnsolicited api) (unsolicited cfg) (unsolicited cfg')
     \<and> part_is api j ''point_database'' (parsePointDatabase api) (point_database cfg) (point_database cfg')"
  (is "?file = ?members")
proof
  show "?file \<Longrightarrow> ?members"
    by (auto simp add: apply_json_def config_statements simp del: and_then_Ret)
next
  show "?members \<Longrightarrow> ?file"
    apply (simp add: apply_json_def config_statements del: and_then_Ret)
    apply (elim conjE)
    apply (rule exI, rule conjI, assumption)+
    apply (simp add: AppConfig.equality)
    done
qed

section \<open>How loading fails\<close>

lemma and_then_Inr:
  "and_then r (\<lambda>c. Ret (Inr c)) \<noteq> Ret (Inl e)"
  "and_then r (\<lambda>c. Ret (Inr c)) = Throw x \<longleftrightarrow> r = Throw x"
  by (cases r; simp)+

text \<open>
  A small JSON type with an accessor set, for the concrete inputs of the witnesses below; the
  accessors throw the name of the error.
\<close>

datatype json = JInt int | JString string | JBool bool | JArray "json list"
  | JObject "(string \<times> json) list"

definition sample_api :: "(json, string) json_api" where
  "sample_api =
     \<lparr>has_key = (\<lambda>j key. case j of JObject kvs \<Rightarrow> map_of kvs key \<noteq> None | _ \<Rightarrow> False),
      at_key = (\<lambda>j key. case j of JObject kvs \<Rightarrow> the (map_of kvs key) | _ \<Rightarrow> j),
      at_index = (\<lambda>j i. case j of
          JArray js \<Rightarrow> if i < length js then Ret (js ! i) else Throw ''out_of_range''
        | _ \<Rightarrow> Throw ''type_error''),
      elements = (\<lambda>j. case j of JArray js \<Rightarrow> js | _ \<Rightarrow> [j]),
      get_uint16 = (\<lambda>j. case j of JInt n \<Rightarrow> Ret (of_int n) | _ \<Rightarrow> Throw ''type_error''),
      get_uint32 = (\<lambda>j. case j of JInt n \<Rightarrow> Ret (of_int n) | _ \<Rightarrow> Throw ''type_error''),
      get_bool = (\<lambda>j. case j of JBool b \<Rightarrow> Ret b | _ \<Rightarrow> Throw ''type_error''),
      get_double = (\<lambda>j. case j of JInt n \<Rightarrow> Ret (double_of_int n) | _ \<Rightarrow> Throw ''type_error''),
      get_string = (\<lambda>j. case j of JString s \<Rightarrow> Ret s | _ \<Rightarrow> Throw ''type_error'')\<rparr>"

definition sample_points :: json where
  "sample_points =
     JArray [JObject [(''range'', JArray [JInt 0, JInt 10]), (''class'', JString ''class1'')],
             JObject [(''index'', JInt 12), (''deadband'', JInt 2)]]"

lemmas sample_eval = sample_api_def sample_points_def read_field_def read_part_def

text \<open>
  No environment, whatever text its variables hold, makes a load fail that succeeds
  under another, and none changes the point database, the event buffer sizes or the
  unsolicited settings: those come from the file alone.
\<close>

theorem environment_cannot_fail_load:
  assumes "load api read_file parse width getenv path = Ret (Inr cfg)"
  shows "\<exists>cfg'. load api read_file parse width' getenv' path = Ret (Inr cfg')
     \<and> point_database cfg' = point_database cfg
     \<and> event_buffer cfg' = event_buffer cfg
     \<and> unsolicited cfg' = unsolicited cfg"
  using assms by (auto simp: load_layers apply_environment_def)

theorem environment_cannot_fail_load_witness:
  "\<exists>cfg'. load sample_api (\<lambda>p. Some ''{}'') (\<lambda>c. Inr (JObject [])) 32
        [''DNP3_BRIDGE_DNP3_PORT'' \<mapsto> ''not a number''] (Some ''config.json'') = Ret (Inr cfg')
     \<and> point_database cfg' = default_PointDatabaseConfig"
proof -
  have "load sample_api (\<lambda>p. Some ''{}'') (\<lambda>c. Inr (JObject [])) 64 (\<lambda>v. None)
     (Some ''config.json'') = Ret (Inr default_AppConfig)"
    by (simp add: load_layers file_layer_def load_from_json_def apply_json_def
        sample_eval apply_environment_def env_or_def env_uint16_def env_uint32_def)
  from environment_cannot_fail_load [OF this, of 32 "[''DNP3_BRIDGE_DNP3_PORT'' \<mapsto> ''not a number'']"]
  show ?thesis by (auto simp: default_AppConfig_def)
qed

section \<open>Numbers from the environment\<close>

text \<open>
  A 16-bit setting given in decimal takes effect as written when it fits in 16 bits.
  A larger number is not rejected: up to the range of \<open>unsigned long\<close> it is reduced modulo
  65536, and only beyond that range the fallback is kept.
\<close>

theorem env_uint16_decimal:
  assumes "getenv name = Some (show_nat n)"
  shows "unat (env_uint16 width getenv name fallback) =
     (if 2 ^ width \<le> n then unat fallback else n mod 65536)"
  using assms by (simp add: env_uint16_def stoul_show_nat word_to_nat)

theorem env_uint16_decimal_witness:
  "unat (env_uint16 64 [''DNP3_BRIDGE_DNP3_PORT'' \<mapsto> show_nat 70000]
     ''DNP3_BRIDGE_DNP3_PORT'' 20000) = 4464"
  by (subst env_uint16_decimal [where n = 70000]) simp_all

section \<open>Point entries\<close>

lemma parse_entries_Ret:
  "parse_entries api js out = Ret out' \<longleftrightarrow>
     (\<exists>pcs. out' = out @ pcs \<and> list_all2 (\<lambda>j pc. parsePointConfig api j = Ret pc) js pcs)"
proof (induction js arbitrary: out)
  case Nil
  then show ?case by auto
next
  case (Cons j js)
  show ?case
    by (auto simp: Cons.IH and_then_eq_Ret list_all2_Cons1)
qed

lemmas point_statements =
  read_field_then [where assign = "\<lambda>v pc. pc\<lparr>event_class := v\<rparr>" and fld = event_class]
  read_field_then [where assign = "\<lambda>v pc. pc\<lparr>static_variation := v\<rparr>" and fld = static_variation]
  read_field_then [where assign = "\<lambda>v pc. pc\<lparr>event_variation := v\<rparr>" and fld = event_variation]

lemma read_field_frame:
  assumes "read_field api j key get assign obj = Ret obj'" and "\<And>v. f (assign v obj) = f obj"
  shows "f obj' = f obj"
  using assms by (auto simp: read_field_def and_then_eq_Ret split: if_splits)

lemma parsePointConfig_position:
  assumes "parsePointConfig api entry = Ret pc"
  obtains pc0 where "parse_point_position api entry default_PointConfig = Ret pc0"
    and "pc_start pc = pc_start pc0" and "pc_end pc = pc_end pc0"
proof -
  from assms obtain p0 p1 p2 p3 where
    p0: "parse_point_position api entry default_PointConfig = Ret p0"
    and steps:
      "read_field api entry ''class'' (get_string api) (\<lambda>v pc. pc\<lparr>event_class := v\<rparr>) p0 = Ret p1"
      "read_field api entry ''deadband'' (get_double api) (\<lambda>v pc. pc\<lparr>deadband := Some v\<rparr>) p1 = Ret p2"
      "read_field api entry ''static_variation'' (get_string api)
         (\<lambda>v pc. pc\<lparr>static_variation := v\<rparr>) p2 = Ret p3"
      "read_field api entry ''event_variation'' (get_string api)
         (\<lambda>v pc. pc\<lparr>event_variation := v\<rparr>) p3 = Ret pc"
    by (auto simp: parsePointConfig_def and_then_eq_Ret)
  have "(pc_start pc, pc_end pc) = (pc_start p0, pc_end p0)"
    using steps [THEN read_field_frame [where f = "\<lambda>pc. (pc_start pc, pc_end pc)"]] by simp
  with p0 that show ?thesis by simp
qed

definition position_of_entry :: "('j, 'x) json_api \<Rightarrow> 'j \<Rightarrow> PointConfig \<Rightarrow> bool" where
  "position_of_entry api entry pc =
     (if has_key api entry ''range''
      then and_then (at_index api (at_key api entry ''range'') 0) (get_uint16 api) = Ret (pc_start pc)
         \<and> and_then (at_index api (at_key api entry ''range'') 1) (get_uint16 api) = Ret (pc_end pc)
      else if has_key api entry ''index''
      then get_uint16 api (at_key api entry ''index'') = Ret (pc_start pc) \<and> pc_end pc = pc_start pc
      else pc_start pc = 0 \<and> pc_end pc = 0)"

text \<open>
  Each element of a point section becomes one entry, in order, after those already
  there. Its position comes from \<open>range\<close> when that key is present, even if \<open>index\<close> is too;
  from \<open>index\<close> alone it covers exactly that one point; with neither it is the point 0.
\<close>

theorem parsePointConfigs_entries:
  assumes "parsePointConfigs api arr out = Ret out'"
  shows "\<exists>pcs. out' = out @ pcs
     \<and> list_all2 (\<lambda>entry pc. parsePointConfig api entry = Ret pc \<and> position_of_entry api entry pc)
         (elements api arr) pcs"
proof -
  have "position_of_entry api entry pc" if "parsePointConfig api entry = Ret pc" for entry pc
    using that
    by (rule parsePointConfig_position)
      (auto simp: position_of_entry_def parse_point_position_def default_PointConfig_def Let_def
        and_then_eq_Ret split: if_splits)
  then show ?thesis
    using assms unfolding parsePointConfigs_def parse_entries_Ret
    by (blast intro: list_all2_mono)
qed

theorem parsePointConfigs_entries_witness:
  "\<exists>pcs. list_all2 (\<lambda>entry pc. parsePointConfig sample_api entry = Ret pc
         \<and> position_of_entry sample_api entry pc) (elements sample_api sample_points) pcs
     \<and> map pc_end pcs = [10, 12]"
proof -
  let ?out = "[default_PointConfig\<lparr>pc_end := 10, event_class := ''class1''\<rparr>,
    default_PointConfig\<lparr>pc_start := 12, pc_end := 12, deadband := Some (double_of_int 2)\<rparr>]"
  have "parsePointConfigs sample_api sample_points [] = Ret ?out"
    by (simp add: parsePointConfigs_def parsePointConfig_def parse_point_position_def
        sample_eval default_PointConfig_def)
  from parsePointConfigs_entries [OF this] show ?thesis
    by (auto simp: default_PointConfig_def)
qed

end
