(* ===== verification/PointNaming.thy ===== *)
theory PointNaming
  imports AppConfig CppText "HOL-Library.Sublist"
begin

text \<open>
  The names of the configuration file for opendnp3 enumerators, and the validation of a
  point database against them (\<open>src/src/dnp3/OutstationManager.cpp\<close>). The enumerations are
  opendnp3's; the constructors are the enumerators the source names.
\<close>

section \<open>Name tables\<close>

datatype PointClass = Class0 | Class1 | Class2 | Class3

datatype StaticAnalogVariation =
  Group30Var1 | Group30Var2 | Group30Var3 | Group30Var4 | Group30Var5 | Group30Var6

datatype EventAnalogVariation =
  Group32Var1 | Group32Var2 | Group32Var3 | Group32Var4 | Group32Var5 | Group32Var6
| Group32Var7 | Group32Var8

datatype StaticAnalogOutputStatusVariation =
  Group40Var1 | Group40Var2 | Group40Var3 | Group40Var4

datatype EventAnalogOutputStatusVariation =
  Group42Var1 | Group42Var2 | Group42Var3 | Group42Var4 | Group42Var5 | Group42Var6
| Group42Var7 | Group42Var8

type_synonym 'e name_table = "(string \<times> 'e) list"

definition nameMap_PointClass :: "PointClass name_table" where
  "nameMap_PointClass =
     [(''class0'', Class0), (''class1'', Class1), (''class2'', Class2), (''class3'', Class3)]"

definition nameMap_StaticAnalog :: "StaticAnalogVariation name_table" where
  "nameMap_StaticAnalog =
     [(''Group30Var1'', Group30Var1), (''Group30Var2'', Group30Var2),
      (''Group30Var3'', Group30Var3), (''Group30Var4'', Group30Var4),
      (''Group30Var5'', Group30Var5), (''Group30Var6'', Group30Var6)]"

definition nameMap_EventAnalog :: "EventAnalogVariation name_table" where
  "nameMap_EventAnalog =
     [(''Group32Var1'', Group32Var1), (''Group32Var2'', Group32Var2),
      (''Group32Var3'', Group32Var3), (''Group32Var4'', Group32Var4),
      (''Group32Var5'', Group32Var5), (''Group32Var6'', Group32Var6),
      (''Group32Var7'', Group32Var7), (''Group32Var8'', Group32Var8)]"

definition nameMap_StaticAnalogOutputStatus :: "StaticAnalogOutputStatusVariation name_table" where
  "nameMap_StaticAnalogOutputStatus =
     [(''Group40Var1'', Group40Var1), (''Group40Var2'', Group40Var2),
      (''Group40Var3'', Group40Var3), (''Group40Var4'', Group40Var4)]"

definition nameMap_EventAnalogOutputStatus :: "EventAnalogOutputStatusVariation name_table" where
  "nameMap_EventAnalogOutputStatus =
     [(''Group42Var1'', Group42Var1), (''Group42Var2'', Group42Var2),
      (''Group42Var3'', Group42Var3), (''Group42Var4'', Group42Var4),
      (''Group42Var5'', Group42Var5), (''Group42Var6'', Group42Var6),
      (''Group42Var7'', Group42Var7), (''Group42Var8'', Group42Var8)]"

lemmas name_tables =
  nameMap_PointClass_def nameMap_StaticAnalog_def nameMap_EventAnalog_def
  nameMap_StaticAnalogOutputStatus_def nameMap_EventAnalogOutputStatus_def

definition toEnum :: "'e name_table \<Rightarrow> string \<Rightarrow> 'e \<Rightarrow> 'e" where
  "toEnum table s fallback = (case map_of table s of Some v \<Rightarrow> v | None \<Rightarrow> fallback)"

section \<open>Class masks\<close>

record ClassField =
  class0 :: bool
  class1 :: bool
  class2 :: bool
  class3 :: bool

definition add_class :: "string \<Rightarrow> ClassField \<Rightarrow> ClassField" where
  "add_class s c =
     (if s = ''class0'' then c\<lparr>class0 := True\<rparr>
      else if s = ''class1'' then c\<lparr>class1 := True\<rparr>
      else if s = ''class2'' then c\<lparr>class2 := True\<rparr>
      else if s = ''class3'' then c\<lparr>class3 := True\<rparr>
      else c)"

definition buildClassMask :: "string list \<Rightarrow> ClassField" where
  "buildClassMask classes =
     fold add_class classes \<lparr>class0 = False, class1 = False, class2 = False, class3 = False\<rparr>"

lemma fold_add_class:
  "fold add_class classes c =
     \<lparr>class0 = (class0 c \<or> ''class0'' \<in> set classes), class1 = (class1 c \<or> ''class1'' \<in> set classes),
      class2 = (class2 c \<or> ''class2'' \<in> set classes), class3 = (class3 c \<or> ''class3'' \<in> set classes)\<rparr>"
  by (induction classes arbitrary: c) (auto simp: add_class_def)

lemma buildClassMask_set:
  "buildClassMask classes =
     \<lparr>class0 = (''class0'' \<in> set classes), class1 = (''class1'' \<in> set classes),
      class2 = (''class2'' \<in> set classes), class3 = (''class3'' \<in> set classes)\<rparr>"
  by (simp add: buildClassMask_def fold_add_class)

section \<open>Validation\<close>

fun join :: "string \<Rightarrow> string list \<Rightarrow> string" where
  "join sep [] = []"
| "join sep [s] = s"
| "join sep (s # ss) = s @ sep @ join sep ss"

definition quoted :: "string \<Rightarrow> string" where
  "quoted s = CHR 0x22 # s @ [CHR 0x22]"

definition unknownValue :: "'e name_table \<Rightarrow> string \<Rightarrow> string \<Rightarrow> string" where
  "unknownValue table fld val =
     fld @ '': unknown value '' @ quoted val @ '' (expected one of: ''
       @ join '', '' (sort (map fst table)) @ '')''"

definition checkRange :: "PointConfig \<Rightarrow> string \<Rightarrow> string + unit" where
  "checkRange pc pre =
     (if pc_start pc > pc_end pc
      then Inl (pre @ ''.range: start '' @ show_nat (unat (pc_start pc))
                  @ '' is greater than end '' @ show_nat (unat (pc_end pc)))
      else Inr ())"

definition checkEnum :: "'e name_table \<Rightarrow> string \<Rightarrow> string \<Rightarrow> string + unit" where
  "checkEnum table val fld =
     (if val = [] \<or> map_of table val \<noteq> None then Inr () else Inl (unknownValue table fld val))"

definition entry_prefix :: "string \<Rightarrow> nat \<Rightarrow> string" where
  "entry_prefix sect i = ''point_database.'' @ sect @ ''['' @ show_nat i @ '']''"

definition check_binary_entry :: "string \<Rightarrow> nat \<Rightarrow> PointConfig \<Rightarrow> string + unit" where
  "check_binary_entry sect i pc =
     (let pre = entry_prefix sect i in
      first_error
        [checkRange pc pre,
         checkEnum nameMap_PointClass (event_class pc) (pre @ ''.class'')])"

definition check_analog_entry ::
  "'s name_table \<Rightarrow> 'e name_table \<Rightarrow> string \<Rightarrow> nat \<Rightarrow> PointConfig \<Rightarrow> string + unit" where
  "check_analog_entry statics events sect i pc =
     (let pre = entry_prefix sect i in
      first_error
        [checkRange pc pre,
         checkEnum nameMap_PointClass (event_class pc) (pre @ ''.class''),
         checkEnum statics (static_variation pc) (pre @ ''.static_variation''),
         checkEnum events (event_variation pc) (pre @ ''.event_variation'')])"

definition check_entries ::
  "(nat \<Rightarrow> PointConfig \<Rightarrow> string + unit) \<Rightarrow> PointConfig list \<Rightarrow> string + unit" where
  "check_entries check entries = first_error (map (\<lambda>i. check i (entries ! i)) [0..<length entries])"

definition checkAnalogSection ::
  "'s name_table \<Rightarrow> 'e name_table \<Rightarrow> PointConfig list \<Rightarrow> string \<Rightarrow> string + unit" where
  "checkAnalogSection statics events entries sect =
     check_entries (check_analog_entry statics events sect) entries"

definition checkBinarySection :: "PointConfig list \<Rightarrow> string \<Rightarrow> string + unit" where
  "checkBinarySection entries sect = check_entries (check_binary_entry sect) entries"

definition validatePointDatabase :: "PointDatabaseConfig \<Rightarrow> string + unit" where
  "validatePointDatabase db =
     first_error
       [checkBinarySection (binary_input db) ''binary_input'',
        checkBinarySection (binary_output_status db) ''binary_output_status'',
        checkAnalogSection nameMap_StaticAnalog nameMap_EventAnalog
          (analog_input db) ''analog_input'',
        checkAnalogSection nameMap_StaticAnalogOutputStatus nameMap_EventAnalogOutputStatus
          (analog_output_status db) ''analog_output_status'']"

section \<open>What validation accepts\<close>

definition known :: "'e name_table \<Rightarrow> string \<Rightarrow> bool" where
  "known table s \<longleftrightarrow> s = [] \<or> s \<in> fst ` set table"

definition binary_entry_ok :: "PointConfig \<Rightarrow> bool" where
  "binary_entry_ok pc \<longleftrightarrow> pc_start pc \<le> pc_end pc \<and> known nameMap_PointClass (event_class pc)"

definition analog_entry_ok :: "'s name_table \<Rightarrow> 'e name_table \<Rightarrow> PointConfig \<Rightarrow> bool" where
  "analog_entry_ok statics events pc \<longleftrightarrow>
     binary_entry_ok pc \<and> known statics (static_variation pc) \<and> known events (event_variation pc)"

lemma checkEnum_ok: "checkEnum table val fld = Inr () \<longleftrightarrow> known table val"
  by (simp add: checkEnum_def known_def map_of_eq_None_iff)

lemma checkRange_ok: "checkRange pc pre = Inr () \<longleftrightarrow> pc_start pc \<le> pc_end pc"
  by (auto simp: checkRange_def)

lemma check_binary_entry_ok: "check_binary_entry sect i pc = Inr () \<longleftrightarrow> binary_entry_ok pc"
  by (auto simp: check_binary_entry_def checkRange_ok checkEnum_ok
      binary_entry_ok_def Let_def)

lemma check_analog_entry_ok:
  "check_analog_entry statics events sect i pc = Inr () \<longleftrightarrow> analog_entry_ok statics events pc"
  by (auto simp: check_analog_entry_def checkRange_ok checkEnum_ok
      binary_entry_ok_def analog_entry_ok_def Let_def)

lemma check_entries_ok:
  assumes "\<And>i pc. check i pc = Inr () \<longleftrightarrow> ok pc"
  shows "check_entries check entries = Inr () \<longleftrightarrow> list_all ok entries"
  by (auto simp: check_entries_def first_error_ok assms list_all_length)

lemmas section_checks = checkBinarySection_def checkAnalogSection_def
  check_entries_ok [OF check_binary_entry_ok] check_entries_ok [OF check_analog_entry_ok]

text \<open>
  C33: A point database passes validation exactly when every entry of its four sections has
  a range that is not reversed and a class name that is empty or one of the four classes,
  and every analog entry has variation names that are empty or in the table of its section.
  The variation names of binary entries are not looked at.
\<close>

theorem validatePointDatabase_ok:
  "validatePointDatabase db = Inr () \<longleftrightarrow>
     list_all binary_entry_ok (binary_input db)
     \<and> list_all binary_entry_ok (binary_output_status db)
     \<and> list_all (analog_entry_ok nameMap_StaticAnalog nameMap_EventAnalog) (analog_input db)
     \<and> list_all (analog_entry_ok nameMap_StaticAnalogOutputStatus nameMap_EventAnalogOutputStatus)
         (analog_output_status db)"
  by (simp add: validatePointDatabase_def section_checks)

text \<open>
  The message of a rejected entry opens with the section and the position of that entry.
\<close>

lemma message_prefix:
  "checkRange pc pre = Inl e \<Longrightarrow> prefix pre e"
  "checkEnum table val (pre @ suf) = Inl e \<Longrightarrow> prefix pre e"
  by (auto simp: checkRange_def checkEnum_def unknownValue_def split: if_splits)

lemma entry_message:
  "check_binary_entry sect i pc = Inl e \<Longrightarrow> prefix (entry_prefix sect i) e"
  "check_analog_entry statics events sect i pc = Inl e \<Longrightarrow> prefix (entry_prefix sect i) e"
  by (auto simp: check_binary_entry_def check_analog_entry_def Let_def dest: message_prefix)

lemma check_entries_Inl:
  assumes "check_entries check entries = Inl e"
    and "\<And>i pc. check i pc = Inr () \<longleftrightarrow> ok pc"
    and "\<And>i pc. check i pc = Inl e \<Longrightarrow> prefix (pre i) e"
  shows "\<exists>i < length entries. prefix (pre i) e \<and> \<not> ok (entries ! i)
     \<and> list_all ok (take i entries)"
proof -
  from assms(1) obtain i where i: "i < length entries" "check i (entries ! i) = Inl e"
      "\<forall>j < i. check j (entries ! j) = Inr ()"
    by (auto simp: check_entries_def first_error_Inl)
  then have "\<not> ok (entries ! i)" "list_all ok (take i entries)"
    using assms(2) [of i "entries ! i"] by (auto simp: list_all_length dest: assms(2) [THEN iffD1])
  with i assms(3) show ?thesis by blast
qed

text \<open>The entry at a position of a named section, and whether an entry of it is acceptable.\<close>

definition db_section :: "PointDatabaseConfig \<Rightarrow> string \<Rightarrow> PointConfig list" where
  "db_section db sect =
     (if sect = ''binary_input'' then binary_input db
      else if sect = ''binary_output_status'' then binary_output_status db
      else if sect = ''analog_input'' then analog_input db
      else if sect = ''analog_output_status'' then analog_output_status db
      else [])"

definition section_entry_ok :: "string \<Rightarrow> PointConfig \<Rightarrow> bool" where
  "section_entry_ok sect =
     (if sect = ''analog_input''
      then analog_entry_ok nameMap_StaticAnalog nameMap_EventAnalog
      else if sect = ''analog_output_status''
      then analog_entry_ok nameMap_StaticAnalogOutputStatus nameMap_EventAnalogOutputStatus
      else binary_entry_ok)"

text \<open>
  C34: When validation rejects a database, the message opens with
  \<open>point_database.<section>[<i>]\<close> for an entry that is really unacceptable, and every entry
  before it in that section is acceptable: the operator is pointed at the first bad entry
  of the section.
\<close>

theorem validatePointDatabase_message:
  assumes "validatePointDatabase db = Inl e"
  shows "\<exists>sect i. i < length (db_section db sect)
     \<and> prefix (entry_prefix sect i) e
     \<and> \<not> section_entry_ok sect (db_section db sect ! i)
     \<and> list_all (section_entry_ok sect) (take i (db_section db sect))"
proof -
  note located = check_entries_Inl [OF _ check_binary_entry_ok entry_message(1)]
    check_entries_Inl [OF _ check_analog_entry_ok entry_message(2)]
  from assms consider
      "checkBinarySection (binary_input db) ''binary_input'' = Inl e"
    | "checkBinarySection (binary_output_status db) ''binary_output_status'' = Inl e"
    | "checkAnalogSection nameMap_StaticAnalog nameMap_EventAnalog
         (analog_input db) ''analog_input'' = Inl e"
    | "checkAnalogSection nameMap_StaticAnalogOutputStatus nameMap_EventAnalogOutputStatus
         (analog_output_status db) ''analog_output_status'' = Inl e"
    by (auto simp: validatePointDatabase_def)
  then show ?thesis
  proof cases
    case 1
    from located(1) [OF this [unfolded checkBinarySection_def]] show ?thesis
      by (intro exI [of _ "''binary_input''"]) (simp add: db_section_def section_entry_ok_def)
  next
    case 2
    from located(1) [OF this [unfolded checkBinarySection_def]] show ?thesis
      by (intro exI [of _ "''binary_output_status''"]) (simp add: db_section_def section_entry_ok_def)
  next
    case 3
    from located(2) [OF this [unfolded checkAnalogSection_def]] show ?thesis
      by (intro exI [of _ "''analog_input''"]) (simp add: db_section_def section_entry_ok_def)
  next
    case 4
    from located(2) [OF this [unfolded checkAnalogSection_def]] show ?thesis
      by (intro exI [of _ "''analog_output_status''"]) (simp add: db_section_def section_entry_ok_def)
  qed
qed

definition misconfigured :: PointDatabaseConfig where
  "misconfigured = default_PointDatabaseConfig
     \<lparr>binary_input := [default_PointConfig\<lparr>pc_end := 10, event_class := ''class1''\<rparr>],
      analog_input :=
        [default_PointConfig\<lparr>pc_end := 3, static_variation := ''Group30Var2''\<rparr>,
         default_PointConfig\<lparr>pc_start := 5, pc_end := 4\<rparr>]\<rparr>"

lemma misconfigured_message:
  "validatePointDatabase misconfigured =
     Inl ''point_database.analog_input[1].range: start 5 is greater than end 4''"
  by code_simp

theorem validatePointDatabase_message_witness:
  "\<exists>sect i. i < length (db_section misconfigured sect)
     \<and> \<not> section_entry_ok sect (db_section misconfigured sect ! i)"
  using validatePointDatabase_message [OF misconfigured_message] by blast

end
