(* ===== verification/PointDatabase.thy ===== *)
theory PointDatabase
  imports PointNaming
begin

text \<open>
  The outstation's point tables: \<open>configureDefaultDatabase\<close>, \<open>configureDatabaseFromConfig\<close>
  and the startup summary \<open>logPointRuns\<close> of \<open>src/src/dnp3/OutstationManager.cpp\<close>.
  opendnp3's \<open>DatabaseConfig\<close> holds one \<open>std::map\<close> per measurement type; a point that
  \<open>operator[]\<close> creates has opendnp3's default settings, which are parameters
  (\<open>library_defaults\<close>). Only the members the code assigns or prints are kept.
\<close>

section \<open>Tables\<close>

record BinaryPoint =
  b_clazz :: PointClass

record ('s, 'e) AnalogPoint =
  a_clazz :: PointClass
  a_deadband :: double
  a_svariation :: 's
  a_evariation :: 'e

type_synonym AnalogInputPoint = "(StaticAnalogVariation, EventAnalogVariation) AnalogPoint"
type_synonym AnalogOutputPoint =
  "(StaticAnalogOutputStatusVariation, EventAnalogOutputStatusVariation) AnalogPoint"

record DatabaseConfig =
  db_binary_input :: "(u16, BinaryPoint) omap"
  db_binary_output_status :: "(u16, BinaryPoint) omap"
  db_analog_input :: "(u16, AnalogInputPoint) omap"
  db_analog_output_status :: "(u16, AnalogOutputPoint) omap"

record library_defaults =
  fresh_database :: DatabaseConfig
  fresh_binary :: BinaryPoint
  fresh_binary_output :: BinaryPoint
  fresh_analog :: AnalogInputPoint
  fresh_analog_output :: AnalogOutputPoint

text \<open>\<open>auto& pt = table[index]; ... pt.x = ...\<close>: the point is created when it is not there.\<close>

definition touch_point :: "'p \<Rightarrow> ('p \<Rightarrow> 'p) \<Rightarrow> u16 \<Rightarrow> (u16, 'p) omap \<Rightarrow> (u16, 'p) omap" where
  "touch_point fresh f index m =
     omap_put index (f (case map_of m index of None \<Rightarrow> fresh | Some pt \<Rightarrow> pt)) m"

lemma for_range_next:
  assumes "(i :: u32) \<le> ucast (final :: u16)"
  shows "unat (i + 1) = Suc (unat i)" and "unat i \<le> unat final"
proof -
  show le: "unat i \<le> unat final"
    using assms by (simp add: word_le_nat_alt word_to_nat)
  then have "unat i < 65536" using u16_less_65536 [of final] by simp
  then show "unat (i + 1) = Suc (unat i)"
    by (simp add: unat_word_ariths)
qed

text \<open>\<open>for (std::uint32_t i = first; i <= last; ++i)\<close> with a 16-bit \<open>last\<close>.\<close>

function for_range :: "(u16 \<Rightarrow> 'm \<Rightarrow> 'm) \<Rightarrow> u32 \<Rightarrow> u16 \<Rightarrow> 'm \<Rightarrow> 'm" where
  "for_range body i final m =
     (if i \<le> ucast final then for_range body (i + 1) final (body (ucast i) m) else m)"
  by pat_completeness auto
termination
  by (relation "measure (\<lambda>(body, i, final, m). Suc (unat final) - unat i)")
    (simp, use for_range_next in fastforce)

declare for_range.simps [simp del]

lemma for_range_fold:
  "for_range body i final m = fold (\<lambda>n. body (of_nat n)) [unat i..<Suc (unat final)] m"
proof (induction body i final m rule: for_range.induct)
  case (1 body i final m)
  show ?case
  proof (cases "i \<le> ucast final")
    case True
    note step = for_range_next [OF True]
    have "[unat i..<Suc (unat final)] = unat i # [Suc (unat i)..<Suc (unat final)]"
      using step(2) by (simp add: upt_conv_Cons)
    moreover have "of_nat (unat i) = (ucast i :: u16)" by simp
    ultimately show ?thesis
      using True 1 by (simp add: for_range.simps [of body i] step(1))
  next
    case False
    then have "unat final < unat i" by (simp add: word_le_nat_alt word_to_nat)
    with False show ?thesis by (simp add: for_range.simps [of body i])
  qed
qed

definition covers :: "u16 \<Rightarrow> PointConfig \<Rightarrow> bool" where
  "covers index pc \<longleftrightarrow> pc_start pc \<le> index \<and> index \<le> pc_end pc"

section \<open>The table interface\<close>

text \<open>
  What the configuration loops rely on: touching a point changes that point alone and starts
  it from the fresh settings.
\<close>

locale point_table =
  fixes lookup :: "'m \<Rightarrow> u16 \<Rightarrow> 'p option"
    and touch :: "'p \<Rightarrow> ('p \<Rightarrow> 'p) \<Rightarrow> u16 \<Rightarrow> 'm \<Rightarrow> 'm"
  assumes lookup_touch:
    "lookup (touch fresh f index m) =
       (lookup m)(index \<mapsto> f (case lookup m index of None \<Rightarrow> fresh | Some pt \<Rightarrow> pt))"
begin

lemma lookup_fold_touch:
  assumes "distinct ns" and "\<forall>n \<in> set ns. n < 65536"
  shows "lookup (fold (\<lambda>n. touch fresh f (of_nat n)) ns m) index =
     (if unat index \<in> set ns
      then Some (f (case lookup m index of None \<Rightarrow> fresh | Some pt \<Rightarrow> pt)) else lookup m index)"
  using assms
proof (induction ns arbitrary: m)
  case Nil
  then show ?case by simp
next
  case (Cons n ns)
  have "index = of_nat n \<longleftrightarrow> unat index = n"
    using Cons.prems(2) by (auto simp: word_unat_eq_iff word_to_nat)
  then show ?case using Cons by (auto simp: lookup_touch)
qed

lemma lookup_for_range:
  "lookup (for_range (touch fresh f) (ucast first) final m) index =
     (if first \<le> index \<and> index \<le> final
      then Some (f (case lookup m index of None \<Rightarrow> fresh | Some pt \<Rightarrow> pt)) else lookup m index)"
proof -
  have "\<forall>n \<in> set [unat first..<Suc (unat final)]. n < 65536"
    using u16_less_65536 [of final] by auto
  then show ?thesis
    by (simp add: for_range_fold lookup_fold_touch word_to_nat word_le_nat_alt less_Suc_eq_le
        del: upt_Suc)
qed

text \<open>
  A section of entries: a point is there when it was or when an entry covers it, and the
  entries that cover it act on it in their order, the first one on the fresh settings.
\<close>

lemma lookup_section:
  "lookup (fold (\<lambda>pc. for_range (touch fresh (upd pc)) (ucast (pc_start pc)) (pc_end pc)) entries m)
     index =
   (if \<exists>pc \<in> set entries. covers index pc
    then Some (fold upd (filter (covers index) entries)
           (case lookup m index of None \<Rightarrow> fresh | Some pt \<Rightarrow> pt))
    else lookup m index)"
  by (induction entries arbitrary: m) (auto simp: lookup_for_range covers_def)

end

interpretation omap_table: point_table map_of touch_point
  by unfold_locales (simp add: touch_point_def)

lemma omap_ordered_touch [simp]: "omap_ordered m \<Longrightarrow> omap_ordered (touch_point fresh f index m)"
  by (simp add: touch_point_def)

lemma omap_ordered_for_range [simp]:
  "omap_ordered m \<Longrightarrow> omap_ordered (for_range (touch_point fresh f) first final m)"
  unfolding for_range_fold by (rule fold_invariant [where Q = "\<lambda>_. True"]) auto

section \<open>Configuration\<close>

definition configureDefaultDatabase :: "library_defaults \<Rightarrow> DatabaseConfig \<Rightarrow> DatabaseConfig" where
  "configureDefaultDatabase lib db =
     db\<lparr>
       db_binary_input := for_range
         (touch_point (fresh_binary lib) (\<lambda>pt. pt\<lparr>b_clazz := Class1\<rparr>)) 0 10 (db_binary_input db),
       db_binary_output_status := for_range
         (touch_point (fresh_binary_output lib) (\<lambda>pt. pt\<lparr>b_clazz := Class0\<rparr>)) 0 19
         (db_binary_output_status db),
       db_analog_input := for_range
         (touch_point (fresh_analog lib)
           (\<lambda>pt. pt\<lparr>a_clazz := Class2, a_svariation := Group30Var2, a_evariation := Group32Var2\<rparr>))
         0 20 (db_analog_input db),
       db_analog_output_status := for_range
         (touch_point (fresh_analog_output lib)
           (\<lambda>pt. pt\<lparr>a_clazz := Class2, a_svariation := Group40Var2, a_evariation := Group42Var2\<rparr>))
         0 4 (db_analog_output_status db)\<rparr>"

definition configure_binary_point :: "PointConfig \<Rightarrow> BinaryPoint \<Rightarrow> BinaryPoint" where
  "configure_binary_point pc pt =
     (if event_class pc \<noteq> []
      then pt\<lparr>b_clazz := toEnum nameMap_PointClass (event_class pc) Class1\<rparr> else pt)"

text \<open>
  The body of the two analog loops, over the name tables and fallbacks of the section.
\<close>

definition configure_analog_point ::
  "'s name_table \<Rightarrow> 's \<Rightarrow> 'e name_table \<Rightarrow> 'e \<Rightarrow> PointConfig
     \<Rightarrow> ('s, 'e) AnalogPoint \<Rightarrow> ('s, 'e) AnalogPoint" where
  "configure_analog_point statics s_fallback events e_fallback pc pt =
     (let pt1 = (if event_class pc \<noteq> []
                 then pt\<lparr>a_clazz := toEnum nameMap_PointClass (event_class pc) Class1\<rparr> else pt);
          pt2 = (case deadband pc of Some d \<Rightarrow> pt1\<lparr>a_deadband := d\<rparr> | None \<Rightarrow> pt1);
          pt3 = (if static_variation pc \<noteq> []
                 then pt2\<lparr>a_svariation := toEnum statics (static_variation pc) s_fallback\<rparr> else pt2)
      in if event_variation pc \<noteq> []
         then pt3\<lparr>a_evariation := toEnum events (event_variation pc) e_fallback\<rparr> else pt3)"

definition configure_section ::
  "'p \<Rightarrow> (PointConfig \<Rightarrow> 'p \<Rightarrow> 'p) \<Rightarrow> PointConfig list \<Rightarrow> (u16, 'p) omap \<Rightarrow> (u16, 'p) omap" where
  "configure_section fresh upd entries m =
     fold (\<lambda>pc. for_range (touch_point fresh (upd pc)) (ucast (pc_start pc)) (pc_end pc)) entries m"

definition configureDatabaseFromConfig ::
  "library_defaults \<Rightarrow> DatabaseConfig \<Rightarrow> PointDatabaseConfig \<Rightarrow> DatabaseConfig" where
  "configureDatabaseFromConfig lib db pt_cfg =
     db\<lparr>
       db_binary_input := configure_section (fresh_binary lib) configure_binary_point
         (binary_input pt_cfg) (db_binary_input db),
       db_binary_output_status := configure_section (fresh_binary_output lib) configure_binary_point
         (binary_output_status pt_cfg) (db_binary_output_status db),
       db_analog_input := configure_section (fresh_analog lib)
         (configure_analog_point nameMap_StaticAnalog Group30Var1 nameMap_EventAnalog Group32Var1)
         (analog_input pt_cfg) (db_analog_input db),
       db_analog_output_status := configure_section (fresh_analog_output lib)
         (configure_analog_point nameMap_StaticAnalogOutputStatus Group40Var1
            nameMap_EventAnalogOutputStatus Group42Var1)
         (analog_output_status pt_cfg) (db_analog_output_status db)\<rparr>"

lemmas map_of_section = omap_table.lookup_section [folded configure_section_def]

lemma omap_ordered_section [simp]:
  "omap_ordered m \<Longrightarrow> omap_ordered (configure_section fresh upd entries m)"
  unfolding configure_section_def by (rule fold_invariant [where Q = "\<lambda>_. True"]) auto

section \<open>The settings a configuration gives a point\<close>

text \<open>
  The specification of a configured point: each setting is the value of the last covering
  entry that gives one, and the fresh value when none does. Names are looked up in their
  table only; no fallback occurs here.
\<close>

definition last_given :: "('c \<Rightarrow> 'v option) \<Rightarrow> 'c list \<Rightarrow> 'v \<Rightarrow> 'v" where
  "last_given given cs start = fold (\<lambda>c old. case given c of Some v \<Rightarrow> v | None \<Rightarrow> old) cs start"

definition binary_setting :: "PointConfig list \<Rightarrow> BinaryPoint \<Rightarrow> BinaryPoint" where
  "binary_setting entries start =
     \<lparr>b_clazz = last_given (\<lambda>pc. map_of nameMap_PointClass (event_class pc)) entries (b_clazz start)\<rparr>"

definition analog_setting ::
  "'s name_table \<Rightarrow> 'e name_table \<Rightarrow> PointConfig list \<Rightarrow> ('s, 'e) AnalogPoint
     \<Rightarrow> ('s, 'e) AnalogPoint" where
  "analog_setting statics events entries start =
     \<lparr>a_clazz = last_given (\<lambda>pc. map_of nameMap_PointClass (event_class pc)) entries (a_clazz start),
      a_deadband = last_given deadband entries (a_deadband start),
      a_svariation = last_given (\<lambda>pc. map_of statics (static_variation pc)) entries (a_svariation start),
      a_evariation = last_given (\<lambda>pc. map_of events (event_variation pc)) entries (a_evariation start)\<rparr>"

definition table_setting ::
  "(PointConfig list \<Rightarrow> 'p \<Rightarrow> 'p) \<Rightarrow> 'p \<Rightarrow> PointConfig list \<Rightarrow> (u16, 'p) omap \<Rightarrow> u16 \<Rightarrow> 'p option" where
  "table_setting setting fresh entries m index =
     (if \<exists>pc \<in> set entries. covers index pc
      then Some (setting (filter (covers index) entries)
             (case map_of m index of None \<Rightarrow> fresh | Some pt \<Rightarrow> pt))
      else map_of m index)"

lemma last_given_Nil [simp]: "last_given given [] start = start"
  by (simp add: last_given_def)

lemma last_given_Cons [simp]:
  "last_given given (c # cs) start =
     last_given given cs (case given c of Some v \<Rightarrow> v | None \<Rightarrow> start)"
  by (simp add: last_given_def)

lemma configured_analog_members:
  "a_clazz (configure_analog_point statics s_fallback events e_fallback pc pt) =
     (if event_class pc \<noteq> [] then toEnum nameMap_PointClass (event_class pc) Class1 else a_clazz pt)"
  "a_deadband (configure_analog_point statics s_fallback events e_fallback pc pt) =
     (case deadband pc of Some d \<Rightarrow> d | None \<Rightarrow> a_deadband pt)"
  "a_svariation (configure_analog_point statics s_fallback events e_fallback pc pt) =
     (if static_variation pc \<noteq> [] then toEnum statics (static_variation pc) s_fallback
      else a_svariation pt)"
  "a_evariation (configure_analog_point statics s_fallback events e_fallback pc pt) =
     (if event_variation pc \<noteq> [] then toEnum events (event_variation pc) e_fallback
      else a_evariation pt)"
  by (simp_all add: configure_analog_point_def Let_def split: option.split)

text \<open>
  The contract of a name table: on a name that validation accepts, the conversion is the
  table's entry and the fallback is not used.
\<close>

locale enum_names =
  fixes names :: "'e name_table"
  assumes no_empty_name: "map_of names [] = None"
begin

lemma toEnum_known:
  assumes "known names s"
  shows "(if s \<noteq> [] then toEnum names s fallback else old) =
     (case map_of names s of Some v \<Rightarrow> v | None \<Rightarrow> old)"
proof (cases "s = []")
  case True
  then show ?thesis by (simp add: no_empty_name)
next
  case False
  with assms have "map_of names s \<noteq> None" by (simp add: known_def map_of_eq_None_iff)
  with False show ?thesis by (auto simp: toEnum_def)
qed

end

interpretation classes: enum_names nameMap_PointClass
  by unfold_locales (simp add: name_tables)

interpretation static_analog: enum_names nameMap_StaticAnalog
  by unfold_locales (simp add: name_tables)

interpretation event_analog: enum_names nameMap_EventAnalog
  by unfold_locales (simp add: name_tables)

interpretation static_output: enum_names nameMap_StaticAnalogOutputStatus
  by unfold_locales (simp add: name_tables)

interpretation event_output: enum_names nameMap_EventAnalogOutputStatus
  by unfold_locales (simp add: name_tables)

text \<open>Two name tables with the contract make an analog section.\<close>

locale analog_names = statics: enum_names statics + events: enum_names events
  for statics :: "'s name_table" and events :: "'e name_table"
begin

lemma configure_point_known:
  assumes "analog_entry_ok statics events pc"
  shows "configure_analog_point statics s_fallback events e_fallback pc pt =
     analog_setting statics events [pc] pt"
proof -
  have c: "known nameMap_PointClass (event_class pc)" and s: "known statics (static_variation pc)"
      and e: "known events (event_variation pc)"
    using assms by (simp_all add: analog_entry_ok_def binary_entry_ok_def)
  note resolved = classes.toEnum_known [OF c] statics.toEnum_known [OF s] events.toEnum_known [OF e]
  show ?thesis
    by (rule AnalogPoint.equality)
      (simp_all only: configured_analog_members resolved analog_setting_def AnalogPoint.simps
        last_given_Cons last_given_Nil unit_eq)
qed

lemma fold_configure_point:
  assumes "list_all (analog_entry_ok statics events) entries"
  shows "fold (configure_analog_point statics s_fallback events e_fallback) entries pt =
     analog_setting statics events entries pt"
  using assms
  by (induction entries arbitrary: pt)
    (auto simp: configure_point_known, auto simp: analog_setting_def)

lemma section_setting:
  assumes "list_all (analog_entry_ok statics events) entries"
  shows "map_of (configure_section fresh
           (configure_analog_point statics s_fallback events e_fallback) entries m) index =
     table_setting (analog_setting statics events) fresh entries m index"
proof -
  have "list_all (analog_entry_ok statics events) (filter (covers index) entries)"
    using assms by (simp add: list_all_iff)
  then show ?thesis by (simp add: map_of_section table_setting_def fold_configure_point)
qed

end

interpretation analog_input_names: analog_names nameMap_StaticAnalog nameMap_EventAnalog
  by unfold_locales

interpretation analog_output_names:
  analog_names nameMap_StaticAnalogOutputStatus nameMap_EventAnalogOutputStatus
  by unfold_locales

lemma configure_binary_known:
  assumes "binary_entry_ok pc"
  shows "configure_binary_point pc pt = binary_setting [pc] pt"
  using assms classes.toEnum_known [of "event_class pc" Class1 "b_clazz pt"]
  by (auto simp: configure_binary_point_def binary_setting_def binary_entry_ok_def
      split: option.splits intro!: BinaryPoint.equality)

lemma binary_section_setting:
  assumes "list_all binary_entry_ok entries"
  shows "map_of (configure_section fresh configure_binary_point entries m) index =
     table_setting binary_setting fresh entries m index"
proof -
  have "fold configure_binary_point es pt = binary_setting es pt"
    if "list_all binary_entry_ok es" for es pt
    using that
    by (induction es arbitrary: pt) (auto simp: configure_binary_known, auto simp: binary_setting_def)
  moreover have "list_all binary_entry_ok (filter (covers index) entries)"
    using assms by (simp add: list_all_iff)
  ultimately show ?thesis by (simp add: map_of_section table_setting_def)
qed

lemma validated_sections:
  assumes "validatePointDatabase cfg = Inr ()"
  shows "list_all binary_entry_ok (binary_input cfg)"
    and "list_all binary_entry_ok (binary_output_status cfg)"
    and "list_all (analog_entry_ok nameMap_StaticAnalog nameMap_EventAnalog) (analog_input cfg)"
    and "list_all (analog_entry_ok nameMap_StaticAnalogOutputStatus nameMap_EventAnalogOutputStatus)
           (analog_output_status cfg)"
  using assms by (simp_all add: validatePointDatabase_def section_checks)

text \<open>
  C32: For a configuration that passed validation, the loops give every point of the four
  tables exactly the specified settings: a point exists when it did or when an entry covers
  it, each setting is the one of the last covering entry that gives it (an entry without a
  deadband keeps the deadband of an earlier one), and no name resolves to a fallback.
\<close>

theorem configured_points:
  assumes "validatePointDatabase cfg = Inr ()"
    and "db' = configureDatabaseFromConfig lib db cfg"
  shows "map_of (db_binary_input db') index =
       table_setting binary_setting (fresh_binary lib) (binary_input cfg) (db_binary_input db) index
     \<and> map_of (db_binary_output_status db') index =
       table_setting binary_setting (fresh_binary_output lib) (binary_output_status cfg)
         (db_binary_output_status db) index
     \<and> map_of (db_analog_input db') index =
       table_setting (analog_setting nameMap_StaticAnalog nameMap_EventAnalog) (fresh_analog lib)
         (analog_input cfg) (db_analog_input db) index
     \<and> map_of (db_analog_output_status db') index =
       table_setting (analog_setting nameMap_StaticAnalogOutputStatus nameMap_EventAnalogOutputStatus)
         (fresh_analog_output lib) (analog_output_status cfg) (db_analog_output_status db) index"
  using validated_sections [OF assms(1)]
  by (simp add: assms(2) configureDatabaseFromConfig_def binary_section_setting
      analog_input_names.section_setting analog_output_names.section_setting)

text \<open>Concrete defaults for the witnesses; the values are arbitrary.\<close>

definition no_points :: DatabaseConfig where
  "no_points = \<lparr>db_binary_input = [], db_binary_output_status = [],
     db_analog_input = [], db_analog_output_status = []\<rparr>"

definition sample_defaults :: library_defaults where
  "sample_defaults =
     \<lparr>fresh_database = no_points,
      fresh_binary = \<lparr>b_clazz = Class1\<rparr>, fresh_binary_output = \<lparr>b_clazz = Class2\<rparr>,
      fresh_analog = \<lparr>a_clazz = Class1, a_deadband = Fin False 0,
        a_svariation = Group30Var1, a_evariation = Group32Var1\<rparr>,
      fresh_analog_output = \<lparr>a_clazz = Class1, a_deadband = Fin False 0,
        a_svariation = Group40Var1, a_evariation = Group42Var1\<rparr>\<rparr>"

text \<open>Two overlapping entries: the second sets a class and leaves the deadband of the first.\<close>

definition overlapping :: PointDatabaseConfig where
  "overlapping = default_PointDatabaseConfig
     \<lparr>analog_input :=
        [default_PointConfig\<lparr>pc_end := 20, deadband := Some (Fin False 7), event_class := ''class2''\<rparr>,
         default_PointConfig\<lparr>pc_start := 4, pc_end := 4, event_class := ''class3''\<rparr>]\<rparr>"

lemmas sample_configuration = overlapping_def sample_defaults_def no_points_def config_defaults

theorem configured_points_witness:
  "map_of (db_analog_input (configureDatabaseFromConfig sample_defaults no_points overlapping)) 4 =
     Some \<lparr>a_clazz = Class3, a_deadband = Fin False 7,
       a_svariation = Group30Var1, a_evariation = Group32Var1\<rparr>"
proof -
  have "validatePointDatabase overlapping = Inr ()" by code_simp
  from configured_points [OF this refl, of sample_defaults no_points 4] show ?thesis
    by (simp add: table_setting_def analog_setting_def covers_def sample_configuration name_tables)
qed

lemma map_of_range_from_0:
  "map_of (for_range (touch_point fresh f) 0 final []) index =
     (if index \<le> final then Some (f fresh) else None)"
  using omap_table.lookup_for_range [of fresh f 0 final "[]" index] by simp

text \<open>
  Without a configured database, and starting from no points, the built-in one has 11
  binary inputs of class 1, 20 binary output statuses of class 0, 21 analog inputs of class 2
  with the 16-bit variations, and 5 analog output statuses of class 2 likewise, and no others.
\<close>

theorem default_database_points:
  "map_of (db_binary_input (configureDefaultDatabase lib no_points)) index =
     (if index \<le> 10 then Some ((fresh_binary lib)\<lparr>b_clazz := Class1\<rparr>) else None)
   \<and> map_of (db_binary_output_status (configureDefaultDatabase lib no_points)) index =
     (if index \<le> 19 then Some ((fresh_binary_output lib)\<lparr>b_clazz := Class0\<rparr>) else None)
   \<and> map_of (db_analog_input (configureDefaultDatabase lib no_points)) index =
     (if index \<le> 20 then Some ((fresh_analog lib)
        \<lparr>a_clazz := Class2, a_svariation := Group30Var2, a_evariation := Group32Var2\<rparr>) else None)
   \<and> map_of (db_analog_output_status (configureDefaultDatabase lib no_points)) index =
     (if index \<le> 4 then Some ((fresh_analog_output lib)
        \<lparr>a_clazz := Class2, a_svariation := Group40Var2, a_evariation := Group42Var2\<rparr>) else None)"
  by (simp add: configureDefaultDatabase_def no_points_def map_of_range_from_0)

section \<open>The startup summary\<close>

text \<open>
  \<open>logPointRuns\<close> walks a table in index order and prints one line per run of consecutive
  indices with the same description. \<open>runs_from\<close> is its loop, with the three variables
  \<open>run_start\<close>, \<open>prev\<close> and \<open>desc\<close>; \<open>flush\<close> is the run it emits. \<open>prev + 1\<close> is computed in
  \<open>int\<close>, so it does not wrap at 65535.
\<close>

fun runs_from :: "u16 \<Rightarrow> u16 \<Rightarrow> string \<Rightarrow> (u16 \<times> string) list \<Rightarrow> (u16 \<times> u16 \<times> string) list" where
  "runs_from run_start prev desc [] = [(run_start, prev, desc)]"
| "runs_from run_start prev desc ((index, next_desc) # points) =
     (if unat index \<noteq> unat prev + 1 \<or> next_desc \<noteq> desc
      then (run_start, prev, desc) # runs_from index index next_desc points
      else runs_from run_start index desc points)"

definition point_runs :: "('p \<Rightarrow> string) \<Rightarrow> (u16, 'p) omap \<Rightarrow> (u16 \<times> u16 \<times> string) list" where
  "point_runs describe points =
     (case map (\<lambda>e. (fst e, describe (snd e))) points of
        [] \<Rightarrow> []
      | (index, desc) # rest \<Rightarrow> runs_from index index desc rest)"

definition run_line :: "string \<Rightarrow> u16 \<times> u16 \<times> string \<Rightarrow> string" where
  "run_line label run =
     (case run of (run_start, prev, desc) \<Rightarrow>
        if run_start = prev
        then ''  '' @ label @ ''['' @ show_nat (unat run_start) @ ''] '' @ desc
        else ''  '' @ label @ ''['' @ show_nat (unat run_start) @ ''..'' @ show_nat (unat prev)
               @ ''] '' @ desc)"

definition logPointRuns :: "string \<Rightarrow> ('p \<Rightarrow> string) \<Rightarrow> (u16, 'p) omap \<Rightarrow> string list" where
  "logPointRuns label describe points = map (run_line label) (point_runs describe points)"

text \<open>opendnp3's and fmt's texts for the settings are parameters.\<close>

record setting_texts =
  class_text :: "PointClass \<Rightarrow> string"
  double_text :: "double \<Rightarrow> string"
  static_analog_text :: "StaticAnalogVariation \<Rightarrow> string"
  event_analog_text :: "EventAnalogVariation \<Rightarrow> string"
  static_output_text :: "StaticAnalogOutputStatusVariation \<Rightarrow> string"
  event_output_text :: "EventAnalogOutputStatusVariation \<Rightarrow> string"

definition binary_desc :: "setting_texts \<Rightarrow> BinaryPoint \<Rightarrow> string" where
  "binary_desc texts pt = ''class='' @ class_text texts (b_clazz pt)"

definition analog_desc ::
  "setting_texts \<Rightarrow> ('s \<Rightarrow> string) \<Rightarrow> ('e \<Rightarrow> string) \<Rightarrow> ('s, 'e) AnalogPoint \<Rightarrow> string" where
  "analog_desc texts static_name event_name pt =
     ''class='' @ class_text texts (a_clazz pt)
       @ '' deadband='' @ double_text texts (a_deadband pt)
       @ '' static='' @ static_name (a_svariation pt)
       @ '' event='' @ event_name (a_evariation pt)"

definition logDatabaseSummary :: "setting_texts \<Rightarrow> DatabaseConfig \<Rightarrow> string list" where
  "logDatabaseSummary texts db =
     [''DNP3 database: '' @ show_nat (length (db_binary_input db)) @ '' BI, ''
        @ show_nat (length (db_binary_output_status db)) @ '' BO status, ''
        @ show_nat (length (db_analog_input db)) @ '' AI, ''
        @ show_nat (length (db_analog_output_status db)) @ '' AO status'']
     @ logPointRuns ''BI'' (binary_desc texts) (db_binary_input db)
     @ logPointRuns ''BO'' (binary_desc texts) (db_binary_output_status db)
     @ logPointRuns ''AI''
         (analog_desc texts (static_analog_text texts) (event_analog_text texts)) (db_analog_input db)
     @ logPointRuns ''AO''
         (analog_desc texts (static_output_text texts) (event_output_text texts))
         (db_analog_output_status db)"

text \<open>The points a run stands for.\<close>

definition expand_run :: "u16 \<times> u16 \<times> string \<Rightarrow> (nat \<times> string) list" where
  "expand_run run = (case run of (run_start, prev, desc) \<Rightarrow>
     map (\<lambda>n. (n, desc)) [unat run_start..<Suc (unat prev)])"

text \<open>Two neighbouring runs that could have been printed as one.\<close>

definition mergeable :: "u16 \<times> u16 \<times> string \<Rightarrow> u16 \<times> u16 \<times> string \<Rightarrow> bool" where
  "mergeable run run' =
     (case run of (a, b, desc) \<Rightarrow> case run' of (a', b', desc') \<Rightarrow>
        unat a' = unat b + 1 \<and> desc' = desc)"

lemma expand_runs_from:
  "run_start \<le> prev \<Longrightarrow>
   concat (map expand_run (runs_from run_start prev desc points)) =
     expand_run (run_start, prev, desc) @ map (\<lambda>(index, d). (unat index, d)) points"
proof (induction run_start prev desc points rule: runs_from.induct)
  case (1 run_start prev desc)
  then show ?case by simp
next
  case (2 run_start prev desc index next_desc points)
  show ?case
  proof (cases "unat index \<noteq> unat prev + 1 \<or> next_desc \<noteq> desc")
    case True
    then show ?thesis using 2 by (auto simp: expand_run_def)
  next
    case False
    then have "run_start \<le> index" using 2(3) by (simp add: word_le_nat_alt)
    moreover have "[unat run_start..<Suc (unat index)] =
        [unat run_start..<Suc (unat prev)] @ [unat index]"
      using False 2(3) by (simp add: word_le_nat_alt)
    ultimately show ?thesis
      using False 2 by (simp add: expand_run_def del: upt_Suc)
  qed
qed

lemma runs_from_first:
  "\<exists>b rest. runs_from run_start prev desc points = (run_start, b, desc) # rest"
  by (induction run_start prev desc points rule: runs_from.induct) auto

lemma runs_from_maximal:
  "successively (\<lambda>r r'. \<not> mergeable r r') (runs_from run_start prev desc points)"
proof (induction run_start prev desc points rule: runs_from.induct)
  case (2 run_start prev desc index next_desc points)
  obtain b rest where "runs_from index index next_desc points = (index, b, next_desc) # rest"
    using runs_from_first by blast
  with 2 show ?case by (auto simp: mergeable_def successively_Cons)
qed simp

text \<open>
  The runs of the startup summary, written out, are the table's points in order with
  their descriptions, none missing and none added, and no two neighbouring runs could have
  been printed as one.
\<close>

theorem point_runs_exact:
  "concat (map expand_run (point_runs describe points)) =
     map (\<lambda>e. (unat (fst e), describe (snd e))) points
   \<and> successively (\<lambda>r r'. \<not> mergeable r r') (point_runs describe points)"
proof (cases points)
  case Nil
  then show ?thesis by (simp add: point_runs_def)
next
  case (Cons e es)
  then show ?thesis
    by (auto simp: point_runs_def expand_runs_from runs_from_maximal expand_run_def)
qed

end
