(* ===== verification/Proto.thy ===== *)
theory Proto
  imports Float64
begin

text \<open>
  The messages of \<open>proto/dnp3bridge.proto\<close>. An enum of proto3 is open: a value received from
  the peer may be any 32-bit integer, so the enums the bridge receives are integers with
  named constants. The enums it only sends are datatypes. \<open>repeated\<close> fields are lists, a
  \<open>oneof\<close> is an optional variant.
\<close>

section \<open>Enums the bridge receives\<close>

type_synonym PointQuality = int

definition POINT_QUALITY_GOOD :: PointQuality where "POINT_QUALITY_GOOD = 0"
definition POINT_QUALITY_UNCERTAIN :: PointQuality where "POINT_QUALITY_UNCERTAIN = 1"
definition POINT_QUALITY_BAD :: PointQuality where "POINT_QUALITY_BAD = 2"
definition POINT_QUALITY_RESTART :: PointQuality where "POINT_QUALITY_RESTART = 3"

lemmas point_quality_values =
  POINT_QUALITY_GOOD_def POINT_QUALITY_UNCERTAIN_def POINT_QUALITY_BAD_def
  POINT_QUALITY_RESTART_def

type_synonym CommandResultStatus = int

definition COMMAND_RESULT_SUCCESS :: CommandResultStatus where "COMMAND_RESULT_SUCCESS = 0"
definition COMMAND_RESULT_TIMEOUT :: CommandResultStatus where "COMMAND_RESULT_TIMEOUT = 1"
definition COMMAND_RESULT_NO_SELECT :: CommandResultStatus where "COMMAND_RESULT_NO_SELECT = 2"
definition COMMAND_RESULT_FORMAT_ERROR :: CommandResultStatus where
  "COMMAND_RESULT_FORMAT_ERROR = 3"
definition COMMAND_RESULT_NOT_SUPPORTED :: CommandResultStatus where
  "COMMAND_RESULT_NOT_SUPPORTED = 4"
definition COMMAND_RESULT_ALREADY_ACTIVE :: CommandResultStatus where
  "COMMAND_RESULT_ALREADY_ACTIVE = 5"
definition COMMAND_RESULT_HARDWARE_ERROR :: CommandResultStatus where
  "COMMAND_RESULT_HARDWARE_ERROR = 6"
definition COMMAND_RESULT_LOCAL :: CommandResultStatus where "COMMAND_RESULT_LOCAL = 7"
definition COMMAND_RESULT_TOO_MANY_OPS :: CommandResultStatus where
  "COMMAND_RESULT_TOO_MANY_OPS = 8"
definition COMMAND_RESULT_NOT_AUTHORIZED :: CommandResultStatus where
  "COMMAND_RESULT_NOT_AUTHORIZED = 9"
definition COMMAND_RESULT_DOWNSTREAM_FAIL :: CommandResultStatus where
  "COMMAND_RESULT_DOWNSTREAM_FAIL = 10"

lemmas command_result_values =
  COMMAND_RESULT_SUCCESS_def COMMAND_RESULT_TIMEOUT_def COMMAND_RESULT_NO_SELECT_def
  COMMAND_RESULT_FORMAT_ERROR_def COMMAND_RESULT_NOT_SUPPORTED_def
  COMMAND_RESULT_ALREADY_ACTIVE_def COMMAND_RESULT_HARDWARE_ERROR_def COMMAND_RESULT_LOCAL_def
  COMMAND_RESULT_TOO_MANY_OPS_def COMMAND_RESULT_NOT_AUTHORIZED_def
  COMMAND_RESULT_DOWNSTREAM_FAIL_def

section \<open>Enums the bridge sends\<close>

datatype OutstationState =
  OUTSTATION_STATE_UNKNOWN | OUTSTATION_STATE_CONNECTED | OUTSTATION_STATE_DISCONNECTED

datatype CommandType =
  COMMAND_TYPE_UNSPECIFIED | COMMAND_TYPE_CROB | COMMAND_TYPE_ANALOG_INT16
| COMMAND_TYPE_ANALOG_INT32 | COMMAND_TYPE_ANALOG_FLOAT32 | COMMAND_TYPE_ANALOG_DOUBLE64

datatype CrobOperationType =
  CROB_OPERATION_NUL | CROB_OPERATION_PULSE_ON | CROB_OPERATION_PULSE_OFF
| CROB_OPERATION_LATCH_ON | CROB_OPERATION_LATCH_OFF

section \<open>Messages\<close>

record AnalogPointMsg =
  am_index :: u32
  am_value :: double
  am_quality :: PointQuality

record BinaryPointMsg =
  bm_index :: u32
  bm_value :: bool
  bm_quality :: PointQuality

record CounterPointMsg =
  cm_index :: u32
  cm_value :: u32
  cm_quality :: PointQuality

record UpdateRequest =
  analogs :: "AnalogPointMsg list"
  binaries :: "BinaryPointMsg list"
  counters :: "CounterPointMsg list"

record UpdateResponse =
  success :: bool
  message :: string

record StatusResponse =
  state :: OutstationState
  last_update_timestamp_ms :: u64

record CrobCommand =
  operation :: CrobOperationType
  crob_count :: u32
  on_time_ms :: u32
  off_time_ms :: u32

datatype payload = Crob CrobCommand | Analog_value double

record CommandRequest =
  command_id :: u64
  point_index :: u32
  command_type :: CommandType
  payload :: "payload option"

text \<open>A default-constructed request: every field at its proto3 default.\<close>

definition empty_CommandRequest :: CommandRequest where
  "empty_CommandRequest =
     \<lparr>command_id = 0, point_index = 0, command_type = COMMAND_TYPE_UNSPECIFIED, payload = None\<rparr>"

record CommandResponse =
  response_command_id :: u64
  response_status :: CommandResultStatus

end
