(* ===== verification/Dispatcher.thy ===== *)
theory Dispatcher
  imports Proto
begin

text \<open>
  \<open>src/src/dnp3/CommandDispatcher.hpp\<close> and \<open>.cpp\<close>: the state of a \<open>CommandDispatcher\<close> and its
  operations, cut at the lock sections of the code. A writer is the address of a
  \<open>ServerWriter\<close>. The shared state of a promise and its future is named after the call of
  \<open>dispatch\<close> that created it, and \<open>results\<close> holds the values set so far.
\<close>

section \<open>State\<close>

text \<open>opendnp3's status codes, as far as the sources name them.\<close>

datatype CommandStatus =
  SUCCESS | TIMEOUT | NO_SELECT | FORMAT_ERROR | NOT_SUPPORTED | ALREADY_ACTIVE
| HARDWARE_ERROR | LOCAL | TOO_MANY_OPS | NOT_AUTHORIZED | DOWNSTREAM_FAIL | UNDEFINED

type_synonym writer = nat
type_synonym call = nat

record dispatcher =
  next_id :: u64
  active_writer :: "writer option"
  pending :: "u64 \<rightharpoonup> call"
  results :: "call \<rightharpoonup> CommandStatus"

definition new_dispatcher :: dispatcher where
  "new_dispatcher =
     \<lparr>next_id = 1, active_writer = None, pending = Map.empty, results = Map.empty\<rparr>"

section \<open>Stream tokens\<close>

text \<open>
  \<open>armed\<close> says that \<open>dispatcher_\<close> is not null: a moved-from or released token is disarmed.
\<close>

record StreamToken =
  armed :: bool
  token_writer :: writer

definition registerWriter :: "writer \<Rightarrow> dispatcher \<Rightarrow> StreamToken \<times> dispatcher" where
  "registerWriter w d = (\<lparr>armed = True, token_writer = w\<rparr>, d\<lparr>active_writer := Some w\<rparr>)"

definition release :: "StreamToken \<Rightarrow> dispatcher \<Rightarrow> StreamToken \<times> dispatcher" where
  "release t d =
     (if \<not> armed t then (t, d)
      else (t\<lparr>armed := False\<rparr>,
            if active_writer d = Some (token_writer t) then d\<lparr>active_writer := None\<rparr> else d))"

text \<open>Destruction releases; the token is gone.\<close>

definition destroy_token :: "StreamToken \<Rightarrow> dispatcher \<Rightarrow> dispatcher" where
  "destroy_token t d = snd (release t d)"

text \<open>Move construction yields the new token and what is left of the source.\<close>

definition move_construct :: "StreamToken \<Rightarrow> StreamToken \<times> StreamToken" where
  "move_construct other =
     (\<lparr>armed = armed other, token_writer = token_writer other\<rparr>, other\<lparr>armed := False\<rparr>)"

text \<open>Move assignment between two different objects; self-assignment changes nothing.\<close>

definition move_assign ::
  "StreamToken \<Rightarrow> StreamToken \<Rightarrow> dispatcher \<Rightarrow> StreamToken \<times> StreamToken \<times> dispatcher" where
  "move_assign t other d =
     (case release t d of (t', d') \<Rightarrow>
        (t'\<lparr>armed := armed other, token_writer := token_writer other\<rparr>, other\<lparr>armed := False\<rparr>, d'))"

section \<open>Commands\<close>

definition take_id :: "dispatcher \<Rightarrow> u64 \<times> dispatcher" where
  "take_id d = (next_id d, d\<lparr>next_id := next_id d + 1\<rparr>)"

text \<open>
  \<open>pending_[command_id]\<close> finds or creates the promise; \<open>get_future\<close> throws
  \<open>future_already_retrieved\<close> on a promise that was already there.
\<close>

datatype dispatch_exception = future_already_retrieved

definition register_pending ::
  "call \<Rightarrow> u64 \<Rightarrow> dispatcher \<Rightarrow> (dispatch_exception, dispatcher) outcome" where
  "register_pending c cid d =
     (case pending d cid of
        Some _ \<Rightarrow> Throw future_already_retrieved
      | None \<Rightarrow> Ret (d\<lparr>pending := (pending d)(cid \<mapsto> c)\<rparr>))"

definition erase_pending :: "u64 \<Rightarrow> dispatcher \<Rightarrow> dispatcher" where
  "erase_pending cid d = d\<lparr>pending := (pending d)(cid := None)\<rparr>"

text \<open>How \<open>Write\<close> ends: it returns a bool or throws.\<close>

datatype write_outcome = Wrote bool | Write_threw

text \<open>The status \<open>dispatch\<close> returns when the write stage ends the command, if it does.\<close>

fun write_failure :: "write_outcome \<Rightarrow> CommandStatus option" where
  "write_failure (Wrote ok) = (if ok then None else Some DOWNSTREAM_FAIL)"
| "write_failure Write_threw = Some DOWNSTREAM_FAIL"

definition write_stage ::
  "write_outcome \<Rightarrow> u64 \<Rightarrow> dispatcher \<Rightarrow> CommandStatus option \<times> dispatcher" where
  "write_stage outcome cid d =
     (case active_writer d of
        None \<Rightarrow> (Some NOT_SUPPORTED, erase_pending cid d)
      | Some w \<Rightarrow>
          (case write_failure outcome of
             None \<Rightarrow> (None, d)
           | Some status \<Rightarrow> (Some status, erase_pending cid d)))"

definition fulfill :: "u64 \<Rightarrow> CommandStatus \<Rightarrow> dispatcher \<Rightarrow> bool \<times> dispatcher" where
  "fulfill cid status d =
     (case pending d cid of
        None \<Rightarrow> (False, d)
      | Some c \<Rightarrow> (True, erase_pending cid (d\<lparr>results := (results d)(c \<mapsto> status)\<rparr>)))"

text \<open>
  One call of \<open>dispatch\<close> run on its own. The environment says how \<open>Write\<close> ends and which
  \<open>fulfill\<close> calls arrive before the deadline, in their order.
\<close>

record dispatch_env =
  env_write :: write_outcome
  env_answers :: "(u64 \<times> CommandStatus) list"

fun fulfill_all :: "(u64 \<times> CommandStatus) list \<Rightarrow> dispatcher \<Rightarrow> dispatcher" where
  "fulfill_all [] d = d"
| "fulfill_all ((cid, status) # answers) d = fulfill_all answers (snd (fulfill cid status d))"

definition wait_stage ::
  "call \<Rightarrow> u64 \<Rightarrow> dispatcher \<Rightarrow> CommandStatus \<times> dispatcher" where
  "wait_stage c cid d =
     (case results d c of
        Some status \<Rightarrow> (status, d)
      | None \<Rightarrow> (TIMEOUT, erase_pending cid d))"

definition dispatch ::
  "dispatch_env \<Rightarrow> call \<Rightarrow> CommandRequest \<Rightarrow> dispatcher
     \<Rightarrow> (dispatch_exception, CommandStatus) outcome \<times> CommandRequest \<times> dispatcher" where
  "dispatch env c request d =
     (case take_id d of (cid, d1) \<Rightarrow>
        let request' = request\<lparr>command_id := cid\<rparr> in
        (case register_pending c cid d1 of
           Throw x \<Rightarrow> (Throw x, request', d1)
         | Ret d2 \<Rightarrow>
             (case write_stage (env_write env) cid d2 of
                (Some status, d3) \<Rightarrow> (Ret status, request', d3)
              | (None, d3) \<Rightarrow>
                  (case wait_stage c cid (fulfill_all (env_answers env) d3) of
                     (status, d4) \<Rightarrow> (Ret status, request', d4)))))"

section \<open>Facts about the lock sections\<close>

lemmas dispatcher_ops =
  take_id_def register_pending_def erase_pending_def write_stage_def fulfill_def wait_stage_def
  registerWriter_def release_def

lemma fulfill_known [simp]: "fst (fulfill cid status d) \<longleftrightarrow> pending d cid \<noteq> None"
  by (auto simp: fulfill_def split: option.split)

lemma fulfill_pending [simp]:
  "pending (snd (fulfill cid status d)) = (pending d)(cid := None)"
  by (auto simp: fulfill_def erase_pending_def split: option.split)

lemma fulfill_results [simp]:
  "results (snd (fulfill cid status d)) =
     (case pending d cid of None \<Rightarrow> results d | Some c \<Rightarrow> (results d)(c \<mapsto> status))"
  by (simp add: fulfill_def erase_pending_def split: option.split)

lemma fulfill_frame [simp]:
  "next_id (snd (fulfill cid status d)) = next_id d"
  "active_writer (snd (fulfill cid status d)) = active_writer d"
  by (simp_all add: fulfill_def erase_pending_def split: option.split)

lemma fulfill_all_frame [simp]:
  "next_id (fulfill_all answers d) = next_id d"
  "active_writer (fulfill_all answers d) = active_writer d"
  by (induction answers d rule: fulfill_all.induct) simp_all

lemma fulfill_all_pending:
  "pending (fulfill_all answers d) cid =
     (if cid \<in> fst ` set answers then None else pending d cid)"
  by (induction answers d rule: fulfill_all.induct) simp_all

lemma fulfill_all_results_other:
  "c \<notin> ran (pending d) \<Longrightarrow> results (fulfill_all answers d) c = results d c"
proof (induction answers d rule: fulfill_all.induct)
  case (2 cid status answers d)
  then show ?case by (auto simp: ran_def split: option.split)
qed simp

text \<open>The first answer to a pending command decides its result.\<close>

lemma fulfill_all_results:
  "pending d cid = Some c \<Longrightarrow> \<forall>i. i \<noteq> cid \<longrightarrow> pending d i \<noteq> Some c \<Longrightarrow> results d c = None \<Longrightarrow>
     results (fulfill_all answers d) c = map_of answers cid"
proof (induction answers d rule: fulfill_all.induct)
  case (2 i status answers d)
  show ?case
  proof (cases "i = cid")
    case True
    then have "c \<notin> ran (pending (snd (fulfill i status d)))"
      using "2.prems"(2) by (force simp only: ran_def fulfill_pending fun_upd_apply split: if_split_asm)
    then show ?thesis using True "2.prems"(1) by (simp add: fulfill_all_results_other)
  next
    case False
    then have "pending d i \<noteq> Some c" using "2.prems"(2) by blast
    then have "results (snd (fulfill i status d)) c = results d c"
      by (auto split: option.split)
    moreover have "pending (snd (fulfill i status d)) cid = Some c"
      using False "2.prems"(1) by simp
    moreover have "\<forall>j. j \<noteq> cid \<longrightarrow> pending (snd (fulfill i status d)) j \<noteq> Some c"
      using "2.prems"(2) by simp
    ultimately show ?thesis using "2.IH" "2.prems"(3) False by simp
  qed
qed simp

section \<open>A command on its own\<close>

text \<open>The call and its id are new to the dispatcher.\<close>

definition fresh_call :: "call \<Rightarrow> dispatcher \<Rightarrow> bool" where
  "fresh_call c d \<longleftrightarrow>
     pending d (next_id d) = None \<and> c \<notin> ran (pending d) \<and> results d c = None"

definition dispatch_status :: "dispatch_env \<Rightarrow> dispatcher \<Rightarrow> CommandStatus" where
  "dispatch_status env d =
     (if active_writer d = None then NOT_SUPPORTED
      else if env_write env \<noteq> Wrote True then DOWNSTREAM_FAIL
      else case map_of (env_answers env) (next_id d) of None \<Rightarrow> TIMEOUT | Some status \<Rightarrow> status)"

lemma write_failure_cases:
  "write_failure oc = (if oc = Wrote True then None else Some DOWNSTREAM_FAIL)"
  by (cases oc) auto

lemma erase_pending_fields [simp]:
  "pending (erase_pending cid d) = (pending d)(cid := None)"
  "results (erase_pending cid d) = results d"
  "next_id (erase_pending cid d) = next_id d"
  "active_writer (erase_pending cid d) = active_writer d"
  by (simp_all add: erase_pending_def)

lemma take_id_fields [simp]:
  "fst (take_id d) = next_id d"
  "next_id (snd (take_id d)) = next_id d + 1"
  "pending (snd (take_id d)) = pending d"
  "results (snd (take_id d)) = results d"
  "active_writer (snd (take_id d)) = active_writer d"
  by (simp_all add: take_id_def)

text \<open>The state after the id is taken and the promise is registered.\<close>

definition registered :: "call \<Rightarrow> dispatcher \<Rightarrow> dispatcher" where
  "registered c d =
     d\<lparr>next_id := next_id d + 1, pending := (pending d)(next_id d \<mapsto> c)\<rparr>"

lemma dispatch_registered:
  assumes "fresh_call c d"
  shows "dispatch env c request d =
     (case write_stage (env_write env) (next_id d) (registered c d) of
        (Some status, d3) \<Rightarrow> (Ret status, request\<lparr>command_id := next_id d\<rparr>, d3)
      | (None, d3) \<Rightarrow>
          (case wait_stage c (next_id d) (fulfill_all (env_answers env) d3) of
             (status, d4) \<Rightarrow> (Ret status, request\<lparr>command_id := next_id d\<rparr>, d4)))"
  using assms
  by (simp add: dispatch_def take_id_def register_pending_def fresh_call_def registered_def Let_def)

lemma registered_results:
  assumes "fresh_call c d"
  shows "results (fulfill_all answers (registered c d)) c = map_of answers (next_id d)"
  by (rule fulfill_all_results)
    (use assms in \<open>auto simp: registered_def fresh_call_def ran_def\<close>)

lemma fulfill_all_results_unregistered:
  assumes "c' \<noteq> c" and "c' \<notin> ran (pending d)"
  shows "results (fulfill_all answers (registered c d)) c' = results d c'"
proof -
  have "c' \<notin> ran (pending (registered c d))"
    using assms by (auto simp: registered_def ran_def)
  then show ?thesis by (simp add: fulfill_all_results_other) (simp add: registered_def)
qed

lemma dispatch_outcome:
  assumes "fresh_call c d"
  shows "\<exists>d'. dispatch env c request d =
            (Ret (dispatch_status env d), request\<lparr>command_id := next_id d\<rparr>, d') \<and>
          pending d' (next_id d) = None \<and> next_id d' = next_id d + 1 \<and>
          active_writer d' = active_writer d \<and>
          (\<forall>i. i \<noteq> next_id d \<longrightarrow> pending d' i \<noteq> None \<longrightarrow> pending d i \<noteq> None) \<and>
          (\<forall>c'. c' \<noteq> c \<longrightarrow> c' \<notin> ran (pending d) \<longrightarrow> results d' c' = results d c')"
proof (cases "active_writer d = None \<or> env_write env \<noteq> Wrote True")
  case True
  then show ?thesis
    by (cases "active_writer d")
      (auto simp: dispatch_registered [OF assms] write_stage_def write_failure_cases
        dispatch_status_def registered_def)
next
  case False
  then obtain w where "active_writer d = Some w" "env_write env = Wrote True" by auto
  moreover have "pending (fulfill_all (env_answers env) (registered c d)) (next_id d) = None"
    if "map_of (env_answers env) (next_id d) \<noteq> None"
    using that by (auto simp: fulfill_all_pending map_of_eq_None_iff)
  moreover have "pending d i \<noteq> None"
    if "pending (fulfill_all (env_answers env) (registered c d)) i \<noteq> None" "i \<noteq> next_id d" for i
    using that by (auto simp: fulfill_all_pending registered_def split: if_splits)
  ultimately show ?thesis
    using registered_results [OF assms, of "env_answers env"]
      fulfill_all_results_unregistered [of _ c d "env_answers env"]
    by (cases "map_of (env_answers env) (next_id d)")
      (simp_all add: dispatch_registered [OF assms] write_stage_def write_failure_cases
        dispatch_status_def wait_stage_def registered_def)
qed

text \<open>
  C22: A command run on its own (a new call, an id not in use) always returns a status:
  NOT_SUPPORTED without a registered stream, DOWNSTREAM_FAIL when \<open>Write\<close> returns false or
  throws, otherwise the first answer that carries the command's own id, and TIMEOUT when no such
  answer arrives in time. The request goes out under the id taken, the pending entry is gone
  afterwards, the id counter moves by one and the registered stream stays.
\<close>

theorem dispatch_result:
  assumes "fresh_call c d"
  shows "\<exists>d'. dispatch env c request d =
            (Ret (dispatch_status env d), request\<lparr>command_id := next_id d\<rparr>, d') \<and>
          pending d' (next_id d) = None \<and> next_id d' = next_id d + 1 \<and>
          active_writer d' = active_writer d"
  using dispatch_outcome [OF assms, of env request] by blast

text \<open>Two answers race to command 1 while another command's answer comes first.\<close>

theorem dispatch_result_witness:
  "\<exists>d'. dispatch \<lparr>env_write = Wrote True, env_answers = [(7, SUCCESS), (1, LOCAL), (1, SUCCESS)]\<rparr>
      0 empty_CommandRequest (snd (registerWriter 5 new_dispatcher)) =
      (Ret LOCAL, empty_CommandRequest\<lparr>command_id := 1\<rparr>, d') \<and> pending d' 1 = None"
  using dispatch_result [of 0 "snd (registerWriter 5 new_dispatcher)"
      "\<lparr>env_write = Wrote True, env_answers = [(7, SUCCESS), (1, LOCAL), (1, SUCCESS)]\<rparr>"
      empty_CommandRequest]
  by (auto simp: fresh_call_def registerWriter_def new_dispatcher_def dispatch_status_def)

section \<open>Streams opened and closed one after another\<close>

datatype stream_op = Opened writer | Closed nat

text \<open>\<open>Closed k\<close> ends the \<open>k\<close>-th stream opened; ending it twice does nothing.\<close>

fun stream_step ::
  "stream_op \<Rightarrow> StreamToken list \<times> dispatcher \<Rightarrow> StreamToken list \<times> dispatcher" where
  "stream_step (Opened w) (tokens, d) =
     (case registerWriter w d of (t, d') \<Rightarrow> (tokens @ [t], d'))"
| "stream_step (Closed k) (tokens, d) =
     (if k < length tokens
      then (case release (tokens ! k) d of (t, d') \<Rightarrow> (tokens[k := t], d'))
      else (tokens, d))"

fun run_streams ::
  "stream_op list \<Rightarrow> StreamToken list \<times> dispatcher \<Rightarrow> StreamToken list \<times> dispatcher" where
  "run_streams [] sd = sd"
| "run_streams (a # ops) sd = run_streams ops (stream_step a sd)"

text \<open>
  The specification: the writer of every stream opened so far, in order, or \<open>None\<close> once the stream
  has ended. Writers are addresses of stream objects: two that are open at once are different, but
  a new stream may get the address of one that has ended.
\<close>

fun streams_after :: "stream_op list \<Rightarrow> writer option list \<Rightarrow> writer option list" where
  "streams_after [] ws = ws"
| "streams_after (Opened w # ops) ws = streams_after ops (ws @ [Some w])"
| "streams_after (Closed k # ops) ws = streams_after ops (ws[k := None])"

fun open_writers_differ :: "stream_op list \<Rightarrow> writer option list \<Rightarrow> bool" where
  "open_writers_differ [] ws = True"
| "open_writers_differ (Opened w # ops) ws =
     (Some w \<notin> set ws \<and> open_writers_differ ops (ws @ [Some w]))"
| "open_writers_differ (Closed k # ops) ws = open_writers_differ ops (ws[k := None])"

definition open_writer :: "StreamToken \<Rightarrow> writer option" where
  "open_writer t = (if armed t then Some (token_writer t) else None)"

definition newest_open :: "writer option list \<Rightarrow> writer option" where
  "newest_open ws = (if ws = [] then None else List.last ws)"

lemma newest_open_simps [simp]: "newest_open [] = None" "newest_open (ws @ [w]) = w"
  by (simp_all add: newest_open_def)

text \<open>No open writer occurs twice.\<close>

definition open_once :: "writer option list \<Rightarrow> bool" where
  "open_once ws \<longleftrightarrow>
     (\<forall>i < length ws. \<forall>j < length ws. ws ! i \<noteq> None \<longrightarrow> ws ! i = ws ! j \<longrightarrow> i = j)"

lemma open_once_open: "open_once ws \<Longrightarrow> Some w \<notin> set ws \<Longrightarrow> open_once (ws @ [Some w])"
proof -
  assume once: "open_once ws" and new: "Some w \<notin> set ws"
  have other: "ws ! i \<noteq> Some w" if "i < length ws" for i using new that nth_mem by metis
  have at: "(ws @ [Some w]) ! i = (if i < length ws then ws ! i else Some w) \<and>
      (i < length ws \<or> i = length ws)" if "i < length (ws @ [Some w])" for i
    using that by (auto simp: nth_append)
  show ?thesis unfolding open_once_def
  proof (intro allI impI)
    fix i j
    assume "i < length (ws @ [Some w])" "j < length (ws @ [Some w])"
      and open_i: "(ws @ [Some w]) ! i \<noteq> None" and same: "(ws @ [Some w]) ! i = (ws @ [Some w]) ! j"
    note ends = at [OF this(1)] at [OF this(2)]
    show "i = j"
    proof (cases "i < length ws \<and> j < length ws")
      case True
      then have "ws ! i \<noteq> None" "ws ! i = ws ! j" using ends open_i same by simp_all
      with True once show ?thesis unfolding open_once_def by blast
    next
      case False
      then show ?thesis using ends same other by metis
    qed
  qed
qed

lemma open_once_close: "open_once ws \<Longrightarrow> open_once (ws[k := None])"
  unfolding open_once_def by (metis length_list_update nth_list_update_eq nth_list_update_neq)

text \<open>Closing a stream leaves the writer of another one alone.\<close>

lemma newest_after_close:
  assumes "open_once ws" and "k < length ws"
  shows "newest_open (ws[k := None]) =
    (if ws ! k \<noteq> None \<and> newest_open ws = ws ! k then None else newest_open ws)"
proof -
  have last: "List.last xs = xs ! (length xs - 1)" if "xs \<noteq> []" for xs :: "writer option list"
    using that by (rule last_conv_nth)
  have "ws \<noteq> []" using assms(2) by auto
  then have "newest_open ws = ws ! (length ws - 1)"
    "newest_open (ws[k := None]) = (if k = length ws - 1 then None else ws ! (length ws - 1))"
    using assms(2) by (auto simp: newest_open_def last nth_list_update)
  moreover have "ws ! (length ws - 1) = ws ! k \<Longrightarrow> ws ! k \<noteq> None \<Longrightarrow> k = length ws - 1"
    using assms unfolding open_once_def by (metis diff_less less_nat_zero_code linorder_neqE_nat zero_less_one)
  ultimately show ?thesis by auto
qed

lemma stream_step_open:
  "stream_step (Opened w) (tokens, d) =
     (tokens @ [\<lparr>armed = True, token_writer = w\<rparr>], d\<lparr>active_writer := Some w\<rparr>)"
  by (simp add: registerWriter_def)

lemma stream_step_close:
  assumes "active_writer d = newest_open (map open_writer tokens)" and "open_once (map open_writer tokens)"
    and "stream_step (Closed k) (tokens, d) = (tokens', d')"
  shows "map open_writer tokens' = (map open_writer tokens)[k := None] \<and>
    active_writer d' = newest_open (map open_writer tokens')"
proof (cases "k < length tokens")
  case False
  then show ?thesis using assms(1,3) by (auto simp: list_update_beyond)
next
  case True
  have same: "\<not> armed t \<Longrightarrow> t\<lparr>armed := False\<rparr> = t" for t :: StreamToken by (cases t) simp
  have "tokens' = tokens[k := (tokens ! k)\<lparr>armed := False\<rparr>]"
    and d': "active_writer d' = (if armed (tokens ! k) \<and> active_writer d = Some (token_writer (tokens ! k))
      then None else active_writer d)"
    using True assms(3) by (auto simp: release_def same split: if_splits)
  then have "map open_writer tokens' = (map open_writer tokens)[k := None]"
    by (simp add: map_update open_writer_def)
  then show ?thesis
    using newest_after_close [OF assms(2), of k] True d' assms(1) by (auto simp: open_writer_def)
qed

lemma run_streams_newest:
  "run_streams ops (tokens, d) = (tokens', d') \<Longrightarrow>
     open_writers_differ ops (map open_writer tokens) \<Longrightarrow> open_once (map open_writer tokens) \<Longrightarrow>
     active_writer d = newest_open (map open_writer tokens) \<Longrightarrow>
     map open_writer tokens' = streams_after ops (map open_writer tokens) \<and>
     active_writer d' = newest_open (map open_writer tokens')"
proof (induction ops arbitrary: tokens d)
  case (Cons a ops)
  show ?case
  proof (cases a)
    case (Opened w)
    let ?tokens = "tokens @ [\<lparr>armed = True, token_writer = w\<rparr>]"
    have opened: "map open_writer ?tokens = map open_writer tokens @ [Some w]"
      by (simp add: open_writer_def)
    have "run_streams ops (?tokens, d\<lparr>active_writer := Some w\<rparr>) = (tokens', d')"
      using Cons.prems(1) by (simp only: Opened run_streams.simps stream_step_open)
    from Cons.IH [OF this] show ?thesis
      unfolding opened using Cons.prems(2,3) Opened by (simp add: open_once_open)
  next
    case (Closed k)
    obtain tokens1 d1 where one: "stream_step (Closed k) (tokens, d) = (tokens1, d1)"
      by (cases "stream_step (Closed k) (tokens, d)")
    note closed = stream_step_close [OF Cons.prems(4,3) one]
    have "run_streams ops (tokens1, d1) = (tokens', d')"
      using Cons.prems(1) by (simp only: Closed run_streams.simps one)
    from Cons.IH [OF this] show ?thesis
      using closed Cons.prems(2,3) Closed by (simp add: open_once_close)
  qed
qed simp

text \<open>
  C21: Whatever the order in which command streams are opened and closed, the registered writer
  is the one of the newest stream while that stream is open, and none after it closed: a stale
  stream that closes late never clears the writer of a newer one, and a second release does
  nothing. Of the streams it is only assumed that two which are open at the same time have
  different writer objects; a reconnecting client may well get the address of a stream that
  has ended.
\<close>

theorem newest_stream_registered:
  assumes "open_writers_differ ops []" and "run_streams ops ([], new_dispatcher) = (tokens, d)"
  shows "active_writer d = newest_open (streams_after ops []) \<and>
    map open_writer tokens = streams_after ops []"
  using run_streams_newest [OF assms(2)] assms(1)
  by (simp add: new_dispatcher_def open_once_def)

text \<open>The third stream gets the address of the first, and the release of the first comes again.\<close>

theorem newest_stream_registered_witness:
  "active_writer (snd (run_streams [Opened 3, Opened 4, Closed 0, Opened 3, Closed 1, Closed 0]
     ([], new_dispatcher))) = Some 3"
proof -
  let ?ops = "[Opened 3, Opened 4, Closed 0, Opened 3, Closed 1, Closed 0]"
  obtain tokens d where run: "run_streams ?ops ([], new_dispatcher) = (tokens, d)"
    by (cases "run_streams ?ops ([], new_dispatcher)")
  from newest_stream_registered [OF _ run] run show ?thesis by (simp add: newest_open_def)
qed

end
