(* ===== verification/DispatcherThreads.thy ===== *)
theory DispatcherThreads
  imports Dispatcher
begin

text \<open>
  \<open>CommandDispatcher\<close> under concurrency: any number of opendnp3 threads inside \<open>dispatch\<close>,
  gRPC threads inside \<open>fulfill\<close>, \<open>registerWriter\<close> and the destructor of a stream token. A step
  is one lock section of the code (or one atomic access); between two steps any other thread
  may run. The functions of \<open>Dispatcher\<close> are the effects of the steps.
\<close>

section \<open>Threads\<close>

text \<open>
  Where a call of \<open>dispatch\<close> stands. \<open>Writing\<close> and \<open>Dropping\<close> hold the writer lock;
  \<open>Dropping\<close> is about to erase its entry and return the status, \<open>Expired\<close> has seen the timeout
  and is about to take the pending lock.
\<close>

datatype phase =
  Idle
| Numbered u64
| Registered u64
| Writing u64 writer
| Dropping u64 CommandStatus
| Awaiting u64
| Expired u64
| Returned CommandStatus
| Raised

record ack =
  ack_id :: u64
  ack_status :: CommandStatus
  ack_call :: call

text \<open>
  \<open>made\<close> counts the calls of \<open>dispatch\<close>, which are named by their number. \<open>streams\<close> holds the
  tokens of the open streams. \<open>sent\<close>, \<open>written\<close> and \<open>acks\<close> record what was handed to \<open>Write\<close>, for
  which calls \<open>Write\<close> returned true and which calls of \<open>fulfill\<close> returned true; no step reads them.
\<close>

record threads =
  disp :: dispatcher
  made :: nat
  phase :: "call \<Rightarrow> phase"
  requests :: "call \<Rightarrow> CommandRequest"
  writer_lock :: "call option"
  streams :: "writer \<rightharpoonup> StreamToken"
  sent :: "(call \<times> writer \<times> CommandRequest) list"
  written :: "call list"
  acks :: "ack list"

definition idle_threads :: threads where
  "idle_threads =
     \<lparr>disp = new_dispatcher, made = 0, phase = (\<lambda>c. Idle),
      requests = (\<lambda>c. empty_CommandRequest), writer_lock = None, streams = Map.empty,
      sent = [], written = [], acks = []\<rparr>"

datatype action =
  Begin CommandRequest
| Register call
| Enter_writer call
| Finish_write call write_outcome
| Drop call
| Get call
| Expire call
| Drop_expired call
| Answer u64 CommandStatus
| Open_stream writer
| Close_stream writer

definition set_phase :: "call \<Rightarrow> phase \<Rightarrow> threads \<Rightarrow> threads" where
  "set_phase c p s = s\<lparr>phase := (phase s)(c := p)\<rparr>"

definition begin_dispatch :: "CommandRequest \<Rightarrow> threads \<Rightarrow> threads" where
  "begin_dispatch r s =
     (case take_id (disp s) of (cid, d) \<Rightarrow>
        (set_phase (made s) (Numbered cid) s)
          \<lparr>disp := d, made := Suc (made s),
           requests := (requests s)(made s := r\<lparr>command_id := cid\<rparr>)\<rparr>)"

definition register_call :: "call \<Rightarrow> threads \<Rightarrow> threads option" where
  "register_call c s =
     (case phase s c of
        Numbered cid \<Rightarrow>
          (case register_pending c cid (disp s) of
             Throw x \<Rightarrow> Some (set_phase c Raised s)
           | Ret d \<Rightarrow> Some (set_phase c (Registered cid) (s\<lparr>disp := d\<rparr>)))
      | _ \<Rightarrow> None)"

text \<open>The writer lock is taken; without a writer the call is rejected, else \<open>Write\<close> starts.\<close>

definition enter_writer :: "call \<Rightarrow> threads \<Rightarrow> threads option" where
  "enter_writer c s =
     (case (phase s c, writer_lock s) of
        (Registered cid, None) \<Rightarrow>
          (case active_writer (disp s) of
             None \<Rightarrow> Some (set_phase c (Dropping cid NOT_SUPPORTED) (s\<lparr>writer_lock := Some c\<rparr>))
           | Some w \<Rightarrow>
               Some (set_phase c (Writing cid w)
                 (s\<lparr>writer_lock := Some c, sent := sent s @ [(c, w, requests s c)]\<rparr>)))
      | _ \<Rightarrow> None)"

definition finish_write :: "call \<Rightarrow> write_outcome \<Rightarrow> threads \<Rightarrow> threads option" where
  "finish_write c oc s =
     (case phase s c of
        Writing cid w \<Rightarrow>
          (case write_failure oc of
             None \<Rightarrow>
              Some (set_phase c (Awaiting cid) (s\<lparr>writer_lock := None, written := written s @ [c]\<rparr>))
           | Some status \<Rightarrow> Some (set_phase c (Dropping cid status) s))
      | _ \<Rightarrow> None)"

definition drop_entry :: "call \<Rightarrow> threads \<Rightarrow> threads option" where
  "drop_entry c s =
     (case phase s c of
        Dropping cid status \<Rightarrow>
          Some (set_phase c (Returned status)
            (s\<lparr>disp := erase_pending cid (disp s), writer_lock := None\<rparr>))
      | _ \<Rightarrow> None)"

definition get_result :: "call \<Rightarrow> threads \<Rightarrow> threads option" where
  "get_result c s =
     (case (phase s c, results (disp s) c) of
        (Awaiting cid, Some status) \<Rightarrow> Some (set_phase c (Returned status) s)
      | _ \<Rightarrow> None)"

definition expire_wait :: "call \<Rightarrow> threads \<Rightarrow> threads option" where
  "expire_wait c s =
     (case (phase s c, results (disp s) c) of
        (Awaiting cid, None) \<Rightarrow> Some (set_phase c (Expired cid) s)
      | _ \<Rightarrow> None)"

definition drop_expired :: "call \<Rightarrow> threads \<Rightarrow> threads option" where
  "drop_expired c s =
     (case phase s c of
        Expired cid \<Rightarrow>
          Some (set_phase c (Returned TIMEOUT) (s\<lparr>disp := erase_pending cid (disp s)\<rparr>))
      | _ \<Rightarrow> None)"

definition answer :: "u64 \<Rightarrow> CommandStatus \<Rightarrow> threads \<Rightarrow> bool \<times> threads" where
  "answer cid status s =
     (case fulfill cid status (disp s) of (ok, d) \<Rightarrow>
        (ok, s\<lparr>disp := d,
               acks := acks s @
                 (case pending (disp s) cid of
                    None \<Rightarrow> []
                  | Some c \<Rightarrow> [\<lparr>ack_id = cid, ack_status = status, ack_call = c\<rparr>])\<rparr>))"

definition open_stream :: "writer \<Rightarrow> threads \<Rightarrow> threads option" where
  "open_stream w s =
     (if writer_lock s = None \<and> streams s w = None
      then (case registerWriter w (disp s) of (t, d) \<Rightarrow>
              Some (s\<lparr>disp := d, streams := (streams s)(w \<mapsto> t)\<rparr>))
      else None)"

definition close_stream :: "writer \<Rightarrow> threads \<Rightarrow> threads option" where
  "close_stream w s =
     (case (writer_lock s, streams s w) of
        (None, Some t) \<Rightarrow>
          Some (s\<lparr>disp := destroy_token t (disp s), streams := (streams s)(w := None)\<rparr>)
      | _ \<Rightarrow> None)"

fun perform :: "action \<Rightarrow> threads \<Rightarrow> threads option" where
  "perform (Begin r) s = Some (begin_dispatch r s)"
| "perform (Register c) s = register_call c s"
| "perform (Enter_writer c) s = enter_writer c s"
| "perform (Finish_write c oc) s = finish_write c oc s"
| "perform (Drop c) s = drop_entry c s"
| "perform (Get c) s = get_result c s"
| "perform (Expire c) s = expire_wait c s"
| "perform (Drop_expired c) s = drop_expired c s"
| "perform (Answer cid status) s = Some (snd (answer cid status s))"
| "perform (Open_stream w) s = open_stream w s"
| "perform (Close_stream w) s = close_stream w s"

fun perform_all :: "action list \<Rightarrow> threads \<Rightarrow> threads option" where
  "perform_all [] s = Some s"
| "perform_all (a # as) s = (case perform a s of None \<Rightarrow> None | Some t \<Rightarrow> perform_all as t)"

inductive dstep :: "threads \<Rightarrow> threads \<Rightarrow> bool" where
  dstep_perform: "perform a s = Some t \<Longrightarrow> dstep s t"

inductive_cases dstepE: "dstep s t"

inductive dreachable :: "threads \<Rightarrow> bool" where
  dreachable_initial: "dreachable idle_threads"
| dreachable_step: "dreachable s \<Longrightarrow> dstep s t \<Longrightarrow> dreachable t"

lemma dreachable_least:
  assumes "dreachable s" and "\<And>s. s = idle_threads \<Longrightarrow> P s"
    and "\<And>s t. dreachable s \<Longrightarrow> P s \<Longrightarrow> dstep s t \<Longrightarrow> P t"
  shows "P s"
  using assms(1)
proof (induction rule: dreachable.induct)
  case dreachable_initial
  show ?case by (rule assms(2)) (rule refl)
next
  case (dreachable_step s t)
  show ?case
    by (rule assms(3)) (fact dreachable_step)+
qed

interpretation dispatching: transition_system "\<lambda>s. s = idle_threads" dstep dreachable
  by unfold_locales (fact dreachable_least | blast intro: dreachable.intros)+

lemma dreachable_perform: "dreachable s \<Longrightarrow> perform a s = Some t \<Longrightarrow> dreachable t"
  by (blast intro: dispatching.reachable_step dstep_perform)

lemma dreachable_perform_all:
  "dreachable s \<Longrightarrow> perform_all as s = Some t \<Longrightarrow> dreachable t"
proof (induction as arbitrary: s)
  case (Cons a as)
  then obtain u where "perform a s = Some u" "perform_all as u = Some t"
    by (auto split: option.splits)
  with Cons show ?case by (blast intro: dreachable_perform)
qed simp

section \<open>Steps, case by case\<close>

lemmas op_defs =
  begin_dispatch_def register_call_def enter_writer_def finish_write_def drop_entry_def
  get_result_def expire_wait_def drop_expired_def answer_def open_stream_def close_stream_def

lemma register_call_Some:
  "register_call c s = Some t \<longleftrightarrow>
     (\<exists>cid. phase s c = Numbered cid \<and>
        (if pending (disp s) cid = None
         then t = set_phase c (Registered cid)
                    (s\<lparr>disp := (disp s)\<lparr>pending := (pending (disp s))(cid \<mapsto> c)\<rparr>\<rparr>)
         else t = set_phase c Raised s))"
  by (auto simp: register_call_def register_pending_def split: phase.split option.split)

lemma enter_writer_Some:
  "enter_writer c s = Some t \<longleftrightarrow>
     (\<exists>cid. phase s c = Registered cid \<and> writer_lock s = None \<and>
        (case active_writer (disp s) of
           None \<Rightarrow> t = set_phase c (Dropping cid NOT_SUPPORTED) (s\<lparr>writer_lock := Some c\<rparr>)
         | Some w \<Rightarrow> t = set_phase c (Writing cid w)
             (s\<lparr>writer_lock := Some c, sent := sent s @ [(c, w, requests s c)]\<rparr>)))"
  by (auto simp: enter_writer_def split: phase.split option.split)

lemma finish_write_Some:
  "finish_write c oc s = Some t \<longleftrightarrow>
     (\<exists>cid w. phase s c = Writing cid w \<and>
        t = (if oc = Wrote True
             then set_phase c (Awaiting cid) (s\<lparr>writer_lock := None, written := written s @ [c]\<rparr>)
             else set_phase c (Dropping cid DOWNSTREAM_FAIL) s))"
  by (auto simp: finish_write_def write_failure_cases split: phase.split)

lemma drop_entry_Some:
  "drop_entry c s = Some t \<longleftrightarrow>
     (\<exists>cid status. phase s c = Dropping cid status \<and>
        t = set_phase c (Returned status)
          (s\<lparr>disp := erase_pending cid (disp s), writer_lock := None\<rparr>))"
  by (auto simp: drop_entry_def split: phase.split)

lemma get_result_Some:
  "get_result c s = Some t \<longleftrightarrow>
     (\<exists>cid status. phase s c = Awaiting cid \<and> results (disp s) c = Some status \<and>
        t = set_phase c (Returned status) s)"
  by (auto simp: get_result_def split: phase.split option.split)

lemma expire_wait_Some:
  "expire_wait c s = Some t \<longleftrightarrow>
     (\<exists>cid. phase s c = Awaiting cid \<and> results (disp s) c = None \<and>
        t = set_phase c (Expired cid) s)"
  by (auto simp: expire_wait_def split: phase.split option.split)

lemma drop_expired_Some:
  "drop_expired c s = Some t \<longleftrightarrow>
     (\<exists>cid. phase s c = Expired cid \<and>
        t = set_phase c (Returned TIMEOUT) (s\<lparr>disp := erase_pending cid (disp s)\<rparr>))"
  by (auto simp: drop_expired_def split: phase.split)

lemma answer_refused: "pending (disp s) cid = None \<Longrightarrow> answer cid status s = (False, s)"
  by (simp add: answer_def fulfill_def)

lemma answer_accepted:
  "pending (disp s) cid = Some c \<Longrightarrow> answer cid status s =
     (True, s\<lparr>disp := snd (fulfill cid status (disp s)),
              acks := acks s @ [\<lparr>ack_id = cid, ack_status = status, ack_call = c\<rparr>]\<rparr>)"
  by (simp add: answer_def fulfill_def)

lemma open_stream_Some:
  "open_stream w s = Some t \<longleftrightarrow>
     writer_lock s = None \<and> streams s w = None \<and>
     t = s\<lparr>disp := (disp s)\<lparr>active_writer := Some w\<rparr>,
           streams := (streams s)(w \<mapsto> \<lparr>armed = True, token_writer = w\<rparr>)\<rparr>"
  by (auto simp: open_stream_def registerWriter_def)

lemma close_stream_Some:
  "close_stream w s = Some t \<longleftrightarrow>
     writer_lock s = None \<and> (\<exists>tok. streams s w = Some tok \<and>
       t = s\<lparr>disp := destroy_token tok (disp s), streams := (streams s)(w := None)\<rparr>)"
  by (auto simp: close_stream_def split: option.split)

lemmas ops_Some =
  register_call_Some enter_writer_Some finish_write_Some drop_entry_Some get_result_Some
  expire_wait_Some drop_expired_Some open_stream_Some close_stream_Some

lemma set_phase_fields [simp]:
  "phase (set_phase c p s) = (phase s)(c := p)"
  "disp (set_phase c p s) = disp s" "made (set_phase c p s) = made s"
  "requests (set_phase c p s) = requests s" "writer_lock (set_phase c p s) = writer_lock s"
  "streams (set_phase c p s) = streams s" "sent (set_phase c p s) = sent s"
  "written (set_phase c p s) = written s" "acks (set_phase c p s) = acks s"
  by (simp_all add: set_phase_def)

lemma begin_dispatch_fields [simp]:
  "phase (begin_dispatch r s) = (phase s)(made s := Numbered (next_id (disp s)))"
  "disp (begin_dispatch r s) = snd (take_id (disp s))"
  "made (begin_dispatch r s) = Suc (made s)"
  "requests (begin_dispatch r s) =
     (requests s)(made s := r\<lparr>command_id := next_id (disp s)\<rparr>)"
  "writer_lock (begin_dispatch r s) = writer_lock s"
  "streams (begin_dispatch r s) = streams s" "sent (begin_dispatch r s) = sent s"
  "written (begin_dispatch r s) = written s" "acks (begin_dispatch r s) = acks s"
  by (simp_all add: begin_dispatch_def take_id_def)

lemma destroy_token_fields [simp]:
  "pending (destroy_token t d) = pending d"
  "results (destroy_token t d) = results d"
  "next_id (destroy_token t d) = next_id d"
  "active_writer (destroy_token t d) =
     (if armed t \<and> active_writer d = Some (token_writer t) then None else active_writer d)"
  by (simp_all add: destroy_token_def release_def)

text \<open>What a step changes, as a case distinction on the step.\<close>

lemma perform_cases [consumes 1, case_names
    Begin Register Clash Reject Write Written Write_failed Drop Get Expire Drop_expired
    Accepted Refused Open Close]:
  assumes "perform a s = Some t"
  obtains r where "t = begin_dispatch r s"
  | c cid where "phase s c = Numbered cid" "pending (disp s) cid = None"
      "t = set_phase c (Registered cid)
             (s\<lparr>disp := (disp s)\<lparr>pending := (pending (disp s))(cid \<mapsto> c)\<rparr>\<rparr>)"
  | c cid where "phase s c = Numbered cid" "pending (disp s) cid \<noteq> None"
      "t = set_phase c Raised s"
  | c cid where "phase s c = Registered cid" "writer_lock s = None"
      "active_writer (disp s) = None"
      "t = set_phase c (Dropping cid NOT_SUPPORTED) (s\<lparr>writer_lock := Some c\<rparr>)"
  | c cid w where "phase s c = Registered cid" "writer_lock s = None"
      "active_writer (disp s) = Some w"
      "t = set_phase c (Writing cid w)
             (s\<lparr>writer_lock := Some c, sent := sent s @ [(c, w, requests s c)]\<rparr>)"
  | c cid w where "phase s c = Writing cid w"
      "t = set_phase c (Awaiting cid) (s\<lparr>writer_lock := None, written := written s @ [c]\<rparr>)"
  | c cid w where "phase s c = Writing cid w" "t = set_phase c (Dropping cid DOWNSTREAM_FAIL) s"
  | c cid status where "phase s c = Dropping cid status"
      "t = set_phase c (Returned status)
             (s\<lparr>disp := erase_pending cid (disp s), writer_lock := None\<rparr>)"
  | c cid status where "phase s c = Awaiting cid" "results (disp s) c = Some status"
      "t = set_phase c (Returned status) s"
  | c cid where "phase s c = Awaiting cid" "results (disp s) c = None"
      "t = set_phase c (Expired cid) s"
  | c cid where "phase s c = Expired cid"
      "t = set_phase c (Returned TIMEOUT) (s\<lparr>disp := erase_pending cid (disp s)\<rparr>)"
  | cid status c where "pending (disp s) cid = Some c"
      "t = s\<lparr>disp := snd (fulfill cid status (disp s)),
             acks := acks s @ [\<lparr>ack_id = cid, ack_status = status, ack_call = c\<rparr>]\<rparr>"
  | "t = s"
  | w where "writer_lock s = None" "streams s w = None"
      "t = s\<lparr>disp := (disp s)\<lparr>active_writer := Some w\<rparr>,
             streams := (streams s)(w \<mapsto> \<lparr>armed = True, token_writer = w\<rparr>)\<rparr>"
  | w tok where "writer_lock s = None" "streams s w = Some tok"
      "t = s\<lparr>disp := destroy_token tok (disp s), streams := (streams s)(w := None)\<rparr>"
proof (cases a)
  case (Register c)
  with assms have "register_call c s = Some t" by simp
  then obtain cid where cid: "phase s c = Numbered cid"
    and t: "if pending (disp s) cid = None
         then t = set_phase c (Registered cid)
                    (s\<lparr>disp := (disp s)\<lparr>pending := (pending (disp s))(cid \<mapsto> c)\<rparr>\<rparr>)
         else t = set_phase c Raised s"
    unfolding register_call_Some by blast
  show ?thesis
  proof (cases "pending (disp s) cid = None")
    case True
    then show ?thesis using that(2) [OF cid] t by simp
  next
    case False
    then show ?thesis using that(3) [OF cid] t by simp
  qed
next
  case (Enter_writer c)
  with assms have e: "enter_writer c s = Some t" by simp
  then show ?thesis
  proof (cases "active_writer (disp s)")
    case None
    with e show ?thesis unfolding enter_writer_Some using that(4) by fastforce
  next
    case (Some w)
    with e show ?thesis unfolding enter_writer_Some using that(5) by fastforce
  qed
next
  case (Finish_write c oc)
  with assms have f: "finish_write c oc s = Some t" by simp
  then show ?thesis
  proof (cases "oc = Wrote True")
    case True
    with f show ?thesis unfolding finish_write_Some using that(6) by fastforce
  next
    case False
    with f show ?thesis unfolding finish_write_Some using that(7) by fastforce
  qed
next
  case (Answer cid status)
  show ?thesis
  proof (cases "pending (disp s) cid")
    case None
    with Answer assms show ?thesis using that(13) by (simp add: answer_refused)
  next
    case (Some c)
    with Answer assms show ?thesis 
      by (intro that(12) [OF Some, of status]) (simp add: answer_accepted)
  qed
next
  case (Begin r)
  with assms show ?thesis by (intro that(1) [of r]) simp
next
  case (Drop c)
  with assms obtain cid status where "phase s c = Dropping cid status"
      "t = set_phase c (Returned status)
             (s\<lparr>disp := erase_pending cid (disp s), writer_lock := None\<rparr>)"
    by (auto simp: drop_entry_Some)
  then show ?thesis by (rule that(8))
next
  case (Get c)
  with assms obtain cid status where "phase s c = Awaiting cid" "results (disp s) c = Some status"
      "t = set_phase c (Returned status) s"
    by (auto simp: get_result_Some)
  then show ?thesis by (rule that(9))
next
  case (Expire c)
  with assms obtain cid where "phase s c = Awaiting cid" "results (disp s) c = None"
      "t = set_phase c (Expired cid) s"
    by (auto simp: expire_wait_Some)
  then show ?thesis by (rule that(10))
next
  case (Drop_expired c)
  with assms obtain cid where "phase s c = Expired cid"
      "t = set_phase c (Returned TIMEOUT) (s\<lparr>disp := erase_pending cid (disp s)\<rparr>)"
    by (auto simp: drop_expired_Some)
  then show ?thesis by (rule that(11))
next
  case (Open_stream w)
  with assms show ?thesis by (intro that(14) [of w]) (simp_all add: open_stream_Some)
next
  case (Close_stream w)
  with assms obtain tok where "writer_lock s = None" "streams s w = Some tok"
      "t = s\<lparr>disp := destroy_token tok (disp s), streams := (streams s)(w := None)\<rparr>"
    by (auto simp: close_stream_Some)
  then show ?thesis by (rule that(15))
qed

section \<open>Invariants\<close>

text \<open>The id of the \<open>c\<close>-th call: the counter starts at 1 and wraps after \<open>2 ^ 64\<close> calls.\<close>

definition call_id :: "call \<Rightarrow> u64" where
  "call_id c = of_nat (Suc c)"

lemma call_id_Suc: "call_id (Suc c) = call_id c + 1"
  by (simp add: call_id_def)

lemma call_id_inj: "call_id c = call_id c' \<Longrightarrow> c < 2 ^ 64 \<Longrightarrow> c' < 2 ^ 64 \<Longrightarrow> c = c'"
proof -
  assume eq: "call_id c = call_id c'" and less: "c < 2 ^ 64" "c' < 2 ^ 64"
  then have "(of_nat c :: u64) = of_nat c'" by (simp add: call_id_def)
  then have "unat (of_nat c :: u64) = unat (of_nat c' :: u64)" by simp
  with less show "c = c'" by (simp add: unat_of_nat)
qed

fun phase_id :: "phase \<Rightarrow> u64 option" where
  "phase_id (Numbered cid) = Some cid"
| "phase_id (Registered cid) = Some cid"
| "phase_id (Writing cid w) = Some cid"
| "phase_id (Dropping cid status) = Some cid"
| "phase_id (Awaiting cid) = Some cid"
| "phase_id (Expired cid) = Some cid"
| "phase_id Idle = None"
| "phase_id (Returned status) = None"
| "phase_id Raised = None"

text \<open>The call has registered its promise and not yet returned.\<close>

fun entered :: "phase \<Rightarrow> bool" where
  "entered (Registered cid) = True"
| "entered (Writing cid w) = True"
| "entered (Dropping cid status) = True"
| "entered (Awaiting cid) = True"
| "entered (Expired cid) = True"
| "entered Idle = False"
| "entered (Numbered cid) = False"
| "entered (Returned status) = False"
| "entered Raised = False"

fun locks_writer :: "phase \<Rightarrow> bool" where
  "locks_writer (Writing cid w) = True"
| "locks_writer (Dropping cid status) = True"
| "locks_writer Idle = False"
| "locks_writer (Numbered cid) = False"
| "locks_writer (Registered cid) = False"
| "locks_writer (Awaiting cid) = False"
| "locks_writer (Expired cid) = False"
| "locks_writer (Returned status) = False"
| "locks_writer Raised = False"

fun unregistered :: "phase \<Rightarrow> bool" where
  "unregistered Idle = True"
| "unregistered (Numbered cid) = True"
| "unregistered (Registered cid) = False"
| "unregistered (Writing cid w) = False"
| "unregistered (Dropping cid status) = False"
| "unregistered (Awaiting cid) = False"
| "unregistered (Expired cid) = False"
| "unregistered (Returned status) = False"
| "unregistered Raised = False"

definition numbering :: "threads \<Rightarrow> bool" where
  "numbering s \<longleftrightarrow>
     next_id (disp s) = call_id (made s) \<and>
     (\<forall>c. made s \<le> c \<longleftrightarrow> phase s c = Idle) \<and>
     (\<forall>c cid. phase_id (phase s c) = Some cid \<longrightarrow> cid = call_id c) \<and>
     (\<forall>c < made s. command_id (requests s c) = call_id c)"

definition entries :: "threads \<Rightarrow> bool" where
  "entries s \<longleftrightarrow>
     (\<forall>cid c. pending (disp s) cid = Some c \<longrightarrow>
        cid = call_id c \<and> entered (phase s c) \<and> results (disp s) c = None) \<and>
     (\<forall>c. unregistered (phase s c) \<longrightarrow> results (disp s) c = None)"

definition answered :: "threads \<Rightarrow> bool" where
  "answered s \<longleftrightarrow>
     (\<forall>a \<in> set (acks s). ack_id a = call_id (ack_call a) \<and>
        results (disp s) (ack_call a) = Some (ack_status a)) \<and>
     (\<forall>c status. results (disp s) c = Some status \<longrightarrow> c \<in> ack_call ` set (acks s)) \<and>
     distinct (map ack_call (acks s))"

definition returns :: "threads \<Rightarrow> bool" where
  "returns s \<longleftrightarrow>
     (\<forall>c status. phase s c = Returned status \<longrightarrow>
        results (disp s) c = Some status \<or>
        status = NOT_SUPPORTED \<or> status = DOWNSTREAM_FAIL \<or> status = TIMEOUT) \<and>
     (\<forall>c cid status. phase s c = Dropping cid status \<longrightarrow>
        status = NOT_SUPPORTED \<or> status = DOWNSTREAM_FAIL)"

definition locking :: "threads \<Rightarrow> bool" where
  "locking s \<longleftrightarrow> (\<forall>c. writer_lock s = Some c \<longleftrightarrow> locks_writer (phase s c))"

definition live_writer :: "threads \<Rightarrow> bool" where
  "live_writer s \<longleftrightarrow>
     (\<forall>w tok. streams s w = Some tok \<longrightarrow> armed tok \<and> token_writer tok = w) \<and>
     (\<forall>w. active_writer (disp s) = Some w \<longrightarrow> streams s w \<noteq> None) \<and>
     (\<forall>c cid w. phase s c = Writing cid w \<longrightarrow> active_writer (disp s) = Some w)"

definition kept :: "threads \<Rightarrow> bool" where
  "kept s \<longleftrightarrow>
     (made s \<le> 2 ^ 64 \<longrightarrow>
        (\<forall>c. phase s c \<noteq> Raised \<and>
             (entered (phase s c) \<longrightarrow>
                pending (disp s) (call_id c) = Some c \<or> results (disp s) c \<noteq> None)))"

lemma numbering_fresh: "numbering s \<Longrightarrow> phase s (made s) = Idle"
  by (metis numbering_def order_refl)

lemma numbering_step:
  assumes "perform a s = Some t" and "numbering s"
  shows "numbering t"
  using assms(1)
proof (cases rule: perform_cases)
  case (Begin r)
  then show ?thesis using assms(2)
    by (auto simp: numbering_def call_id_Suc less_Suc_eq) (metis Suc_leI le_neq_implies_less)
qed (use assms(2) in \<open>auto simp: numbering_def split: if_splits\<close>)

lemma entriesI:
  assumes "\<And>cid c. pending (disp s) cid = Some c \<Longrightarrow>
      cid = call_id c \<and> entered (phase s c) \<and> results (disp s) c = None"
    and "\<And>c. unregistered (phase s c) \<Longrightarrow> results (disp s) c = None"
  shows "entries s"
  using assms by (auto simp: entries_def)

lemma entriesD:
  "entries s \<Longrightarrow> pending (disp s) cid = Some c \<Longrightarrow> cid = call_id c"
  "entries s \<Longrightarrow> pending (disp s) cid = Some c \<Longrightarrow> entered (phase s c)"
  "entries s \<Longrightarrow> pending (disp s) cid = Some c \<Longrightarrow> results (disp s) c = None"
  by (auto simp: entries_def)

lemma entries_unregistered:
  "entries s \<Longrightarrow> unregistered (phase s c) \<Longrightarrow> results (disp s) c = None"
  by (simp add: entries_def)

lemma numbering_id: "numbering s \<Longrightarrow> phase_id (phase s c) = Some cid \<Longrightarrow> cid = call_id c"
  by (simp add: numbering_def)

lemma entries_same:
  assumes "entries s"
    and "pending (disp t) = pending (disp s)" and "results (disp t) = results (disp s)"
    and "\<And>c. entered (phase s c) \<Longrightarrow> entered (phase t c)"
    and "\<And>c. unregistered (phase t c) \<Longrightarrow> unregistered (phase s c)"
  shows "entries t"
  using assms by (auto simp: entries_def)

lemma entries_step:
  assumes "perform a s = Some t" and "numbering s" and "entries s"
  shows "entries t"
  using assms(1)
proof (cases rule: perform_cases)
  case (Begin r)
  have "unregistered (phase s (made s))" "\<not> entered (phase s (made s))"
    using assms(2) by (simp_all add: numbering_fresh)
  with Begin assms(3) show ?thesis
    by (auto intro!: entriesI dest: entriesD intro: entries_unregistered split: if_splits)
next
  case (Register c cid)
  then have "cid = call_id c" "results (disp s) c = None"
    using numbering_id [OF assms(2), of c] entries_unregistered [OF assms(3), of c] by simp_all
  with Register assms(3) show ?thesis
    by (auto intro!: entriesI dest: entriesD intro: entries_unregistered split: if_splits)
next
  case (Drop c cid status)
  then have "cid = call_id c" using numbering_id [OF assms(2), of c] by simp
  with Drop assms(3) show ?thesis
    by (auto intro!: entriesI dest: entriesD intro: entries_unregistered split: if_splits)
next
  case (Get c cid status)
  with assms(3) have "pending (disp s) i \<noteq> Some c" for i
    using entriesD(3) [OF assms(3), of i c] by auto
  with Get assms(3) show ?thesis
    by (auto intro!: entriesI dest: entriesD intro: entries_unregistered split: if_splits)
next
  case (Drop_expired c cid)
  then have "cid = call_id c" using numbering_id [OF assms(2), of c] by simp
  with Drop_expired assms(3) show ?thesis
    by (auto intro!: entriesI dest: entriesD intro: entries_unregistered split: if_splits)
next
  case (Accepted cid status c)
  have c: "entered (phase s c)" "cid = call_id c"
    using entriesD [OF assms(3) Accepted(1)] by simp_all
  then have "\<not> unregistered (phase s c)" by (cases "phase s c") auto
  moreover have "c' \<noteq> c \<and> pending (disp s) i = Some c'" if "pending (disp t) i = Some c'" for i c'
  proof -
    from that have "i \<noteq> cid" "pending (disp s) i = Some c'"
      using Accepted(2) by (simp_all split: if_splits)
    then show ?thesis using entriesD(1) [OF assms(3)] c by metis
  qed
  ultimately show ?thesis using Accepted assms(3)
    by (intro entriesI) (simp add: entries_def; metis)+
qed (auto intro!: entries_same [OF assms(3)] split: if_splits)

lemma answered_step:
  assumes "perform a s = Some t" and "entries s" and "answered s"
  shows "answered t"
  using assms(1)
proof (cases rule: perform_cases)
  case (Accepted cid status c)
  have "cid = call_id c" "results (disp s) c = None"
    using Accepted(1) assms(2) by (auto simp: entries_def)
  moreover have "c \<notin> ack_call ` set (acks s)"
    using assms(3) \<open>results (disp s) c = None\<close> by (auto simp: answered_def)
  ultimately show ?thesis using assms(3) Accepted
    by (auto simp: answered_def split: if_splits)
qed (use assms(3) in \<open>auto simp: answered_def\<close>)

lemma returns_step:
  assumes "perform a s = Some t" and "entries s" and "returns s"
  shows "returns t"
  using assms(1)
proof (cases rule: perform_cases)
  case (Accepted cid status c)
  then have "entered (phase s c)" using assms(2) by (auto simp: entries_def)
  then have "phase s c \<noteq> Returned status'" for status' by auto
  with Accepted assms(3) show ?thesis by (auto simp: returns_def)
qed (use assms(3) in \<open>fastforce simp: returns_def split: if_splits\<close>)+

lemma locking_step:
  assumes "perform a s = Some t" and "numbering s" and "locking s"
  shows "locking t"
  using assms(1)
proof (cases rule: perform_cases)
  case (Begin r)
  have "phase s (made s) = Idle" using assms(2) by (rule numbering_fresh)
  then have "writer_lock s \<noteq> Some (made s)" using assms(3) by (simp add: locking_def)
  then show ?thesis using assms(3) Begin by (simp add: locking_def)
next
  case (Written c cid w)
  then have "writer_lock s = Some c" using assms(3) by (simp add: locking_def)
  with Written assms(3) show ?thesis by (simp add: locking_def) metis
next
  case (Drop c cid status)
  then have "writer_lock s = Some c" using assms(3) by (simp add: locking_def)
  with Drop assms(3) show ?thesis by (simp add: locking_def) metis
qed (use assms(3) in \<open>auto simp: locking_def split: if_splits\<close>)

lemma live_writer_writing:
  "live_writer s \<Longrightarrow> phase s c = Writing cid w \<Longrightarrow> active_writer (disp s) = Some w"
  by (simp add: live_writer_def)

lemma live_writer_step:
  assumes "perform a s = Some t" and "locking s" and "live_writer s"
  shows "live_writer t"
  using assms(1)
proof (cases rule: perform_cases)
  case (Open w)
  then have "\<not> locks_writer (phase s c)" for c using assms(2) by (simp add: locking_def)
  then have "phase s c \<noteq> Writing cid v" for c cid v by (metis locks_writer.simps(1))
  with Open assms(3) show ?thesis by (auto simp: live_writer_def)
next
  case (Close w tok)
  then have "\<not> locks_writer (phase s c)" for c using assms(2) by (simp add: locking_def)
  then have "phase s c \<noteq> Writing cid v" for c cid v by (metis locks_writer.simps(1))
  with Close assms(3) show ?thesis by (auto simp: live_writer_def)
next
  case (Written c cid w)
  from Written(1) have "active_writer (disp s) = Some w"
    by (rule live_writer_writing [OF assms(3)])
  moreover from this have "streams s w \<noteq> None" using assms(3) by (simp add: live_writer_def)
  moreover have "w' = w" if "phase s c' = Writing cid' w'" for c' cid' w'
    using live_writer_writing [OF assms(3) that] calculation(1) by simp
  ultimately show ?thesis using assms(3) Written(2)
    by (simp add: live_writer_def)
next
  case (Write_failed c cid w)
  from Write_failed(1) have "active_writer (disp s) = Some w"
    by (rule live_writer_writing [OF assms(3)])
  moreover from this have "streams s w \<noteq> None" using assms(3) by (simp add: live_writer_def)
  moreover have "w' = w" if "phase s c' = Writing cid' w'" for c' cid' w'
    using live_writer_writing [OF assms(3) that] calculation(1) by simp
  ultimately show ?thesis using assms(3) Write_failed(2)
    by (simp add: live_writer_def)
qed (use assms(3) in \<open>auto simp: live_writer_def split: if_splits\<close>)

lemma numbering_made: "numbering s \<Longrightarrow> phase s c \<noteq> Idle \<Longrightarrow> c < made s"
  by (simp add: numbering_def flip: not_le)

lemma keptD:
  "kept s \<Longrightarrow> made s \<le> 2 ^ 64 \<Longrightarrow> phase s c \<noteq> Raised"
  "kept s \<Longrightarrow> made s \<le> 2 ^ 64 \<Longrightarrow> entered (phase s c) \<Longrightarrow>
     pending (disp s) (call_id c) = Some c \<or> results (disp s) c \<noteq> None"
  by (auto simp: kept_def)

lemma keptI:
  assumes "\<And>c. made s \<le> 2 ^ 64 \<Longrightarrow> phase s c \<noteq> Raised"
    and "\<And>c. made s \<le> 2 ^ 64 \<Longrightarrow> entered (phase s c) \<Longrightarrow>
      pending (disp s) (call_id c) = Some c \<or> results (disp s) c \<noteq> None"
  shows "kept s"
  using assms by (simp add: kept_def)

lemma kept_same:
  assumes "kept s" and "made s \<le> made t"
    and "pending (disp t) = pending (disp s)" and "results (disp t) = results (disp s)"
    and "\<And>c. phase s c \<noteq> Raised \<Longrightarrow> phase t c \<noteq> Raised"
    and "\<And>c. entered (phase t c) \<Longrightarrow> entered (phase s c)"
  shows "kept t"
  using assms by (auto simp: kept_def)

text \<open>Erasing the entry of a call that has not returned hurts no other call.\<close>

lemma kept_erase:
  assumes "kept s" and "numbering s"
    and "phase s c \<noteq> Idle" and "cid = call_id c" and "made t = made s"
    and "pending (disp t) = (pending (disp s))(cid := None)"
    and "results (disp t) = results (disp s)"
    and "phase t = (phase s)(c := Returned status)"
  shows "kept t"
proof (rule keptI)
  fix c' assume made: "made t \<le> 2 ^ 64"
  then show "phase t c' \<noteq> Raised" using keptD(1) [OF assms(1)] assms(5,8) by simp
  assume "entered (phase t c')"
  then have c': "c' \<noteq> c" "entered (phase s c')" using assms(8) by (simp_all split: if_splits)
  then have "phase s c' \<noteq> Idle" by auto
  then have "c < 2 ^ 64" "c' < 2 ^ 64"
    using numbering_made [OF assms(2)] assms(3,5) made less_le_trans by metis+
  then have "call_id c' \<noteq> cid" using call_id_inj c'(1) assms(4) by metis
  then show "pending (disp t) (call_id c') = Some c' \<or> results (disp t) c' \<noteq> None"
    using keptD(2) [OF assms(1) _ c'(2)] made assms(5,6,7) by simp
qed

lemma kept_step:
  assumes "perform a s = Some t" and "numbering s" and "entries s" and "kept s"
  shows "kept t"
  using assms(1)
proof (cases rule: perform_cases)
  case (Register c cid)
  then have cid: "cid = call_id c" using numbering_id [OF assms(2), of c] by simp
  show ?thesis
  proof (rule keptI)
    fix c' assume made: "made t \<le> 2 ^ 64"
    then show "phase t c' \<noteq> Raised" using keptD(1) [OF assms(4)] Register(3) by simp
    assume "entered (phase t c')"
    then show "pending (disp t) (call_id c') = Some c' \<or> results (disp t) c' \<noteq> None"
      using keptD(2) [OF assms(4), of c'] made Register cid by (auto split: if_splits)
  qed
next
  case (Clash c cid)
  then obtain c' where c': "pending (disp s) cid = Some c'" by auto
  have id: "cid = call_id c'" "entered (phase s c')" by (rule entriesD [OF assms(3) c'])+
  have "cid = call_id c" using numbering_id [OF assms(2), of c] Clash(1) by simp
  moreover have "c \<noteq> c'" using id(2) Clash(1) by auto
  moreover have "c < made s" "c' < made s"
    using numbering_made [OF assms(2)] Clash(1) id(2) by force+
  ultimately have "\<not> made s \<le> 2 ^ 64"
    using call_id_inj [of c c'] id(1) by (auto dest: less_le_trans)
  then show ?thesis using Clash(3) by (simp add: kept_def)
next
  case (Drop c cid status)
  then have "cid = call_id c" using numbering_id [OF assms(2), of c] by simp
  then show ?thesis
    by (intro kept_erase [OF assms(4,2), where c = c and cid = cid and status = status])
      (simp_all add: Drop)
next
  case (Drop_expired c cid)
  then have "cid = call_id c" using numbering_id [OF assms(2), of c] by simp
  then show ?thesis
    by (intro kept_erase [OF assms(4,2), where c = c and cid = cid and status = TIMEOUT])
      (simp_all add: Drop_expired)
next
  case (Accepted cid status c)
  show ?thesis
  proof (rule keptI)
    fix c' assume made: "made t \<le> 2 ^ 64"
    then show "phase t c' \<noteq> Raised" using keptD(1) [OF assms(4)] Accepted(2) by simp
    assume "entered (phase t c')"
    then have "pending (disp s) (call_id c') = Some c' \<or> results (disp s) c' \<noteq> None"
      using keptD(2) [OF assms(4), of c'] made Accepted(2) by simp
    then show "pending (disp t) (call_id c') = Some c' \<or> results (disp t) c' \<noteq> None"
      using Accepted by auto
  qed
qed (auto intro!: kept_same [OF assms(4)] split: if_splits)

definition sound :: "threads \<Rightarrow> bool" where
  "sound s \<longleftrightarrow>
     numbering s \<and> entries s \<and> answered s \<and> returns s \<and> locking s \<and> live_writer s \<and> kept s"

lemma sound_initial: "sound idle_threads"
  by (simp add: sound_def numbering_def entries_def answered_def returns_def locking_def
      live_writer_def kept_def idle_threads_def new_dispatcher_def call_id_def)

lemma sound_step: "dstep s t \<Longrightarrow> sound s \<Longrightarrow> sound t"
  unfolding sound_def
  by (elim dstepE conjE, intro conjI;
      rule numbering_step entries_step answered_step returns_step locking_step live_writer_step
        kept_step; assumption)

lemma dreachable_sound: "dreachable s \<Longrightarrow> sound s"
  by (rule dispatching.invariant [where P = sound]) (auto intro: sound_initial sound_step)

lemma reachable_parts:
  assumes "dreachable s"
  shows "numbering s" "entries s" "answered s" "returns s" "locking s" "live_writer s" "kept s"
  using dreachable_sound [OF assms] by (simp_all add: sound_def)

section \<open>What a returned status says\<close>

text \<open>
  C4: When \<open>dispatch\<close> returns a status other than the three it makes itself, that status is the
  one of a \<open>fulfill\<close> that returned true and carried the id of this very request: answers are never
  crossed between commands, and no success is invented.
\<close>

theorem returned_status_was_answered:
  assumes "dreachable s" and "phase s c = Returned status"
    and "status \<noteq> NOT_SUPPORTED" and "status \<noteq> DOWNSTREAM_FAIL" and "status \<noteq> TIMEOUT"
  shows "\<exists>a \<in> set (acks s). ack_call a = c \<and> ack_status a = status \<and>
           ack_id a = command_id (requests s c)"
proof -
  note parts = reachable_parts [OF assms(1)]
  have res: "results (disp s) c = Some status"
    using parts(4) assms by (auto simp: returns_def)
  then obtain a where a: "a \<in> set (acks s)" "ack_call a = c"
    using parts(3) by (auto simp: answered_def)
  moreover have "ack_status a = status" "ack_id a = call_id c"
    using parts(3) a res by (auto simp: answered_def)
  moreover have "c < made s" using parts(1) assms(2) by (intro numbering_made) auto
  then have "command_id (requests s c) = call_id c"
    using parts(1) by (simp add: numbering_def)
  ultimately show ?thesis by auto
qed

text \<open>One command answered with LOCAL over stream 7, while a second waits.\<close>

definition answered_run :: "action list" where
  "answered_run =
     [Open_stream 7, Begin empty_CommandRequest, Begin empty_CommandRequest, Register 0,
      Register 1, Enter_writer 0, Finish_write 0 (Wrote True), Enter_writer 1, Answer 1 LOCAL,
      Finish_write 1 (Wrote True), Get 0]"

definition run_from_start :: "action list \<Rightarrow> threads" where
  "run_from_start as = the (perform_all as idle_threads)"

lemma run_reachable:
  "perform_all as idle_threads \<noteq> None \<Longrightarrow> dreachable (run_from_start as)"
  unfolding run_from_start_def
  by (auto intro: dreachable_perform_all [OF dreachable_initial])

lemmas run_simps =
  run_from_start_def idle_threads_def new_dispatcher_def op_defs set_phase_def dispatcher_ops
  destroy_token_def

lemma answered_run_reachable: "dreachable (run_from_start answered_run)"
  by (rule run_reachable) (simp add: answered_run_def run_simps)

theorem returned_status_was_answered_witness:
  "\<exists>a \<in> set (acks (run_from_start answered_run)). ack_call a = 0 \<and> ack_status a = LOCAL \<and>
     ack_id a = command_id (requests (run_from_start answered_run) 0)"
  by (rule returned_status_was_answered [OF answered_run_reachable])
    (simp_all add: answered_run_def run_simps)

text \<open>
  C10: Among the first \<open>2 ^ 64\<close> commands, \<open>fulfill\<close> returns true exactly for the id of a command
  that has registered its promise, has not returned yet and has not been answered before; any
  other id, an old one or a second answer is refused and changes nothing.
\<close>

theorem fulfill_accepts_exactly:
  assumes "dreachable s" and "made s \<le> 2 ^ 64"
  shows "(fst (answer cid status s) \<longleftrightarrow>
            (\<exists>c. call_id c = cid \<and> entered (phase s c) \<and> c \<notin> ack_call ` set (acks s))) \<and>
         (\<not> fst (answer cid status s) \<longrightarrow> snd (answer cid status s) = s)"
proof (intro conjI)
  note parts = reachable_parts [OF assms(1)]
  have acked: "c \<in> ack_call ` set (acks s) \<longleftrightarrow> results (disp s) c \<noteq> None" for c
    using parts(3) by (force simp: answered_def)
  show "fst (answer cid status s) \<longleftrightarrow>
      (\<exists>c. call_id c = cid \<and> entered (phase s c) \<and> c \<notin> ack_call ` set (acks s))"
  proof (cases "pending (disp s) cid")
    case None
    have "results (disp s) c \<noteq> None" if "call_id c = cid" "entered (phase s c)" for c
      using keptD(2) [OF parts(7) assms(2) that(2)] that(1) None by simp
    with None show ?thesis by (auto simp: answer_refused acked)
  next
    case (Some c)
    then show ?thesis using entriesD [OF parts(2) Some]
      by (auto simp: answer_accepted acked)
  qed
  show "\<not> fst (answer cid status s) \<longrightarrow> snd (answer cid status s) = s"
    by (cases "pending (disp s) cid") (simp_all add: answer_accepted answer_refused)
qed

theorem fulfill_accepts_exactly_witness: "fst (answer 2 SUCCESS (run_from_start answered_run))"
proof -
  let ?s = "run_from_start answered_run"
  have "made ?s \<le> 2 ^ 64" and one: "call_id 1 = 2 \<and> entered (phase ?s 1) \<and> 1 \<notin> ack_call ` set (acks ?s)"
    by (simp_all add: answered_run_def run_simps call_id_def)
  from fulfill_accepts_exactly [OF answered_run_reachable this(1), of 2 SUCCESS] one
  show ?thesis by blast
qed

text \<open>
  C5: No entry leaks: an entry of the pending table always belongs to a command that is still
  inside \<open>dispatch\<close>, under its own id, one entry per command; once every command has returned
  the table is empty.
\<close>

theorem pending_entries_in_progress:
  assumes "dreachable s"
  shows "(\<forall>cid c. pending (disp s) cid = Some c \<longrightarrow> entered (phase s c) \<and> cid = call_id c) \<and>
         ((\<forall>c. \<not> entered (phase s c)) \<longrightarrow> pending (disp s) = Map.empty)"
proof -
  have own: "entered (phase s c) \<and> cid = call_id c" if "pending (disp s) cid = Some c" for cid c
    using entriesD [OF reachable_parts(2) [OF assms] that] by simp
  moreover have "pending (disp s) = Map.empty" if "\<forall>c. \<not> entered (phase s c)"
  proof
    fix cid
    show "pending (disp s) cid = None"
      using own [of cid] that by (cases "pending (disp s) cid") blast+
  qed
  ultimately show ?thesis by blast
qed

theorem pending_entries_in_progress_witness:
  "pending (disp (run_from_start answered_run)) 2 = Some 1 \<and>
   entered (phase (run_from_start answered_run) 1)"
proof -
  have "pending (disp (run_from_start answered_run)) 2 = Some 1"
    by (simp add: answered_run_def run_simps)
  with pending_entries_in_progress [OF answered_run_reachable] show ?thesis by blast
qed

text \<open>
  C17: While a command is inside \<open>Write\<close>, it is the only one there, the writer it uses is the
  registered one, and its stream is still open: \<open>StreamCommands\<close> cannot return and free the
  writer under a running \<open>Write\<close>.
\<close>

theorem write_is_safe:
  assumes "dreachable s" and "phase s c = Writing cid w"
  shows "(\<forall>c'. locks_writer (phase s c') \<longrightarrow> c' = c) \<and> active_writer (disp s) = Some w \<and>
         (\<exists>tok. streams s w = Some tok \<and> armed tok) \<and>
         open_stream w' s = None \<and> close_stream w' s = None"
proof -
  note parts = reachable_parts [OF assms(1)]
  have lock: "writer_lock s = Some c" using parts(5) assms(2) by (simp add: locking_def)
  moreover have "c' = c" if "locks_writer (phase s c')" for c'
    using that lock parts(5) by (simp add: locking_def) (metis option.inject)
  moreover have active: "active_writer (disp s) = Some w"
    using parts(6) assms(2) by (rule live_writer_writing)
  then obtain tok where "streams s w = Some tok"
    using parts(6) by (auto simp: live_writer_def)
  moreover from this have "armed tok" using parts(6) by (simp add: live_writer_def)
  ultimately show ?thesis using active
    by (simp add: open_stream_def close_stream_def)
qed

definition writing_run :: "action list" where
  "writing_run =
     [Open_stream 7, Begin empty_CommandRequest, Register 0, Open_stream 8, Enter_writer 0]"

theorem write_is_safe_witness:
  "active_writer (disp (run_from_start writing_run)) = Some 8 \<and>
   close_stream 8 (run_from_start writing_run) = None"
proof -
  have "dreachable (run_from_start writing_run)"
    by (rule run_reachable) (simp add: writing_run_def run_simps)
  moreover have "phase (run_from_start writing_run) 0 = Writing 1 8"
    by (simp add: writing_run_def run_simps)
  ultimately show ?thesis by (simp add: write_is_safe)
qed

end
