(* ===== verification/DispatcherProgress.thy ===== *)
theory DispatcherProgress
  imports DispatcherThreads
begin

text \<open>
  Progress of the calls of \<open>dispatch\<close>, what was handed to \<open>Write\<close>, the race between a timeout
  and a late answer, and the agreement of the threaded model with \<open>dispatch\<close> as one function.
\<close>

section \<open>Commands return\<close>

text \<open>The steps of the calls of \<open>dispatch\<close> themselves; no stream and no answer.\<close>

fun internal :: "action \<Rightarrow> bool" where
  "internal (Register c) = True"
| "internal (Enter_writer c) = True"
| "internal (Finish_write c oc) = True"
| "internal (Drop c) = True"
| "internal (Get c) = True"
| "internal (Expire c) = True"
| "internal (Drop_expired c) = True"
| "internal (Begin r) = False"
| "internal (Answer cid status) = False"
| "internal (Open_stream w) = False"
| "internal (Close_stream w) = False"

fun rank :: "phase \<Rightarrow> nat" where
  "rank (Numbered cid) = 5"
| "rank (Registered cid) = 4"
| "rank (Writing cid w) = 3"
| "rank (Awaiting cid) = 2"
| "rank (Dropping cid status) = 1"
| "rank (Expired cid) = 1"
| "rank Idle = 0"
| "rank (Returned status) = 0"
| "rank Raised = 0"

definition total_rank :: "threads \<Rightarrow> nat" where
  "total_rank s = (\<Sum>c < made s. rank (phase s c))"

fun finished :: "phase \<Rightarrow> bool" where
  "finished (Returned status) = True"
| "finished Raised = True"
| "finished Idle = False"
| "finished (Numbered cid) = False"
| "finished (Registered cid) = False"
| "finished (Writing cid w) = False"
| "finished (Dropping cid status) = False"
| "finished (Awaiting cid) = False"
| "finished (Expired cid) = False"

lemma total_rank_set_phase:
  assumes "c < made s" and "made t = made s" and "phase t = (phase s)(c := p)"
    and "rank p < rank (phase s c)"
  shows "total_rank t < total_rank s"
  unfolding total_rank_def assms(2,3)
  by (rule sum_strict_mono_ex1) (use assms in \<open>auto intro!: bexI [of _ c]\<close>)

fun actor :: "action \<Rightarrow> call" where
  "actor (Register c) = c"
| "actor (Enter_writer c) = c"
| "actor (Finish_write c oc) = c"
| "actor (Drop c) = c"
| "actor (Get c) = c"
| "actor (Expire c) = c"
| "actor (Drop_expired c) = c"
| "actor (Begin r) = 0"
| "actor (Answer cid status) = 0"
| "actor (Open_stream w) = 0"
| "actor (Close_stream w) = 0"

lemma internal_phase:
  assumes "internal a" and "perform a s = Some t"
  shows "made t = made s \<and> phase t = (phase s)(actor a := phase t (actor a)) \<and>
     rank (phase t (actor a)) < rank (phase s (actor a)) \<and> phase s (actor a) \<noteq> Idle"
  by (cases a) (use assms in \<open>auto simp: ops_Some split: if_splits option.splits\<close>)

lemma internal_rank:
  assumes "numbering s" and "internal a" and "perform a s = Some t"
  shows "made t = made s \<and> total_rank t < total_rank s"
proof -
  have step: "made t = made s" "phase t = (phase s)(actor a := phase t (actor a))"
    "rank (phase t (actor a)) < rank (phase s (actor a))" "phase s (actor a) \<noteq> Idle"
    using internal_phase [OF assms(2,3)] by simp_all
  moreover have "actor a < made s" using assms(1) step(4) by (rule numbering_made)
  ultimately show ?thesis by (blast intro: total_rank_set_phase)
qed

lemma internal_run:
  "perform_all as s = Some t \<Longrightarrow> \<forall>a \<in> set as. internal a \<Longrightarrow> dreachable s \<Longrightarrow>
     made t = made s \<and> length as + total_rank t \<le> total_rank s"
proof (induction as arbitrary: s)
  case (Cons a as)
  from Cons.prems(1) obtain u where u: "perform a s = Some u" "perform_all as u = Some t"
    by (auto split: option.splits)
  have "made u = made s \<and> total_rank u < total_rank s"
    using Cons.prems u(1) by (intro internal_rank reachable_parts(1)) simp_all
  moreover have "made t = made u \<and> length as + total_rank t \<le> total_rank u"
    using Cons.prems u by (intro Cons.IH) (auto intro: dreachable_perform)
  ultimately show ?case by simp
qed simp

lemma rank_bound: "rank p \<le> 5"
  by (cases p) simp_all

lemma total_rank_bound: "total_rank s \<le> 5 * made s"
proof -
  have "total_rank s \<le> (\<Sum>c < made s. 5)" unfolding total_rank_def
    by (rule sum_mono) (rule rank_bound)
  then show ?thesis by simp
qed

text \<open>
  An unfinished call can move, or it waits for the writer lock, whose owner can move: no
  deadlock, since the pending lock is only ever taken last.
\<close>

lemma can_move: "internal a \<Longrightarrow> perform a s \<noteq> None \<Longrightarrow> \<exists>a t. internal a \<and> perform a s = Some t"
  by blast

lemma lock_holder_moves:
  assumes "locks_writer (phase s c)"
  shows "\<exists>a t. internal a \<and> perform a s = Some t"
  using assms
proof (cases "phase s c")
  case (Writing cid w)
  then show ?thesis
    by (intro can_move [of "Finish_write c (Wrote True)"]) (simp_all add: finish_write_def)
next
  case (Dropping cid status)
  then show ?thesis by (intro can_move [of "Drop c"]) (simp_all add: drop_entry_def)
qed simp_all

lemma unfinished_moves:
  assumes "dreachable s" and "c < made s" and "\<not> finished (phase s c)"
  shows "\<exists>a t. internal a \<and> perform a s = Some t"
proof -
  note parts = reachable_parts [OF assms(1)]
  show ?thesis
  proof (cases "phase s c")
    case Idle
    then show ?thesis using assms(2) parts(1) by (simp add: numbering_def flip: not_le)
  next
    case (Numbered cid)
    then show ?thesis
      by (intro can_move [of "Register c"]) (simp_all add: register_call_def split: outcome.split)
  next
    case (Registered cid)
    show ?thesis
    proof (cases "writer_lock s")
      case None
      with Registered show ?thesis
        by (intro can_move [of "Enter_writer c"]) (simp_all add: enter_writer_def split: option.split)
    next
      case (Some c')
      then have "locks_writer (phase s c')" using parts(5) unfolding locking_def by blast
      then show ?thesis by (rule lock_holder_moves)
    qed
  next
    case (Awaiting cid)
    then show ?thesis
      using can_move [of "Expire c" s] can_move [of "Get c" s]
      by (cases "results (disp s) c") (simp_all add: expire_wait_def get_result_def)
  next
    case (Expired cid)
    then show ?thesis by (intro can_move [of "Drop_expired c"]) (simp_all add: drop_expired_def)
  qed (use assms lock_holder_moves [of s c] in simp_all)
qed

text \<open>
  C11: \<open>dispatch\<close> always returns: the calls in progress take at most five steps each, without
  any help from a stream or an answer, and when none of them can step any more every one of
  them has finished; none of the first \<open>2 ^ 64\<close> raises.
\<close>

theorem commands_return:
  assumes "dreachable s" and "perform_all as s = Some t" and "\<forall>a \<in> set as. internal a"
  shows "length as \<le> 5 * made s \<and>
         ((\<forall>a. internal a \<longrightarrow> perform a t = None) \<longrightarrow>
            (\<forall>c < made s. finished (phase t c) \<and>
               (made s \<le> 2 ^ 64 \<longrightarrow> (\<exists>status. phase t c = Returned status))))"
proof -
  have run: "made t = made s" "length as + total_rank t \<le> total_rank s"
    using internal_run [OF assms(2,3,1)] by simp_all
  have t: "dreachable t" using assms(1,2) by (rule dreachable_perform_all)
  have "finished (phase t c) \<and> (made s \<le> 2 ^ 64 \<longrightarrow> (\<exists>status. phase t c = Returned status))"
    if "\<forall>a. internal a \<longrightarrow> perform a t = None" "c < made s" for c
  proof -
    have fin: "finished (phase t c)"
      using unfinished_moves [OF t, of c] that run(1) by fastforce
    moreover have "phase t c \<noteq> Raised" if "made s \<le> 2 ^ 64"
      using that run(1) by (intro keptD(1) [OF reachable_parts(7) [OF t]]) simp
    ultimately show ?thesis by (cases "phase t c") auto
  qed
  then show ?thesis using run(2) total_rank_bound [of s] by auto
qed

theorem commands_return_witness:
  "length [Expire (1::call), Drop_expired 1] \<le> 5 * made (run_from_start answered_run)"
proof -
  have "perform_all [Expire 1, Drop_expired 1] (run_from_start answered_run) \<noteq> None"
    by (simp add: answered_run_def run_simps)
  then obtain t where "perform_all [Expire 1, Drop_expired 1] (run_from_start answered_run) = Some t"
    by blast
  from commands_return [OF answered_run_reachable this] show ?thesis by simp
qed

section \<open>What was handed to Write\<close>

fun handed_over :: "phase \<Rightarrow> bool" where
  "handed_over (Writing cid w) = True"
| "handed_over (Awaiting cid) = True"
| "handed_over (Expired cid) = True"
| "handed_over (Dropping cid status) = (status \<noteq> NOT_SUPPORTED)"
| "handed_over (Returned status) = (status \<noteq> NOT_SUPPORTED)"
| "handed_over Idle = False"
| "handed_over (Numbered cid) = False"
| "handed_over (Registered cid) = False"
| "handed_over Raised = False"

fun before_write :: "phase \<Rightarrow> bool" where
  "before_write Idle = True"
| "before_write (Numbered cid) = True"
| "before_write (Registered cid) = True"
| "before_write (Writing cid w) = False"
| "before_write (Awaiting cid) = False"
| "before_write (Expired cid) = False"
| "before_write (Dropping cid status) = False"
| "before_write (Returned status) = False"
| "before_write Raised = False"

definition sending :: "threads \<Rightarrow> bool" where
  "sending s \<longleftrightarrow>
     distinct (map fst (sent s)) \<and>
     (\<forall>c w r. (c, w, r) \<in> set (sent s) \<longrightarrow> r = requests s c \<and> \<not> before_write (phase s c)) \<and>
     (\<forall>c. handed_over (phase s c) \<longrightarrow> c \<in> fst ` set (sent s))"

lemma sending_step:
  assumes "perform a s = Some t" and "numbering s" and "sending s"
  shows "sending t"
  using assms(1)
proof (cases rule: perform_cases)
  case (Begin r)
  have "before_write (phase s (made s))" using assms(2) by (simp add: numbering_fresh)
  with Begin assms(3) show ?thesis by (fastforce simp: sending_def)
next
  case (Write c cid w)
  have "before_write (phase s c)" using Write(1) by simp
  then have "c \<notin> fst ` set (sent s)" using assms(3) by (force simp: sending_def)
  with Write assms(3) show ?thesis by (fastforce simp: sending_def)
next
  case (Reject c cid)
  then have "before_write (phase s c)" by simp
  with Reject assms(3) show ?thesis by (fastforce simp: sending_def)
qed (use assms(3) in \<open>fastforce simp: sending_def split: if_splits\<close>)+

lemma reachable_sending: "dreachable s \<Longrightarrow> sending s"
proof (rule dispatching.invariant_with [where P = sending and Q = numbering])
  fix s t
  assume "dstep s t" "numbering s" "sending s"
  then show "sending t" by (auto elim!: dstepE intro: sending_step)
qed (auto simp: sending_def idle_threads_def intro: reachable_parts(1))

text \<open>
  C23: A command is handed to \<open>Write\<close> at most once, with its own request, and every command that
  returned anything but NOT_SUPPORTED was: a success always means that the request was sent.
\<close>

theorem handed_over_once:
  assumes "dreachable s"
  shows "distinct (map fst (sent s)) \<and>
         (\<forall>c w r. (c, w, r) \<in> set (sent s) \<longrightarrow> r = requests s c) \<and>
         (\<forall>c status. phase s c = Returned status \<and> status \<noteq> NOT_SUPPORTED \<longrightarrow>
            (\<exists>w. (c, w, requests s c) \<in> set (sent s)))"
proof -
  have sending: "sending s" using assms by (rule reachable_sending)
  then have own: "r = requests s c" if "(c, w, r) \<in> set (sent s)" for c w r
    using that by (simp add: sending_def)
  have "\<exists>w. (c, w, requests s c) \<in> set (sent s)"
    if "phase s c = Returned status" "status \<noteq> NOT_SUPPORTED" for c status
  proof -
    have "handed_over (phase s c)" using that by simp
    then have "c \<in> fst ` set (sent s)" using sending by (simp add: sending_def)
    then obtain w r where "(c, w, r) \<in> set (sent s)" by auto
    with own show ?thesis by blast
  qed
  with own sending show ?thesis by (auto simp: sending_def)
qed

theorem handed_over_once_witness:
  "\<exists>w. (0, w, requests (run_from_start answered_run) 0) \<in> set (sent (run_from_start answered_run))"
proof -
  have "phase (run_from_start answered_run) 0 = Returned LOCAL"
    by (simp add: answered_run_def run_simps)
  moreover have "LOCAL \<noteq> NOT_SUPPORTED" by simp
  ultimately show ?thesis using handed_over_once [OF answered_run_reachable] by blast
qed

section \<open>What a status says about the request\<close>

text \<open>
  What may hold of a call at each position: whether its request was handed to \<open>Write\<close>, whether
  \<open>Write\<close> returned true, and the value its promise was set to.
\<close>

fun verdict_ok :: "bool \<Rightarrow> bool \<Rightarrow> CommandStatus option \<Rightarrow> phase \<Rightarrow> bool" where
  "verdict_ok handed ok result Idle = (\<not> handed \<and> \<not> ok)"
| "verdict_ok handed ok result (Numbered cid) = (\<not> handed \<and> \<not> ok)"
| "verdict_ok handed ok result (Registered cid) = (\<not> handed \<and> \<not> ok)"
| "verdict_ok handed ok result (Writing cid w) = (handed \<and> \<not> ok)"
| "verdict_ok handed ok result (Dropping cid status) =
     (\<not> ok \<and> status = (if handed then DOWNSTREAM_FAIL else NOT_SUPPORTED))"
| "verdict_ok handed ok result (Awaiting cid) = (handed \<and> ok)"
| "verdict_ok handed ok result (Expired cid) = (handed \<and> ok)"
| "verdict_ok handed ok result (Returned status) =
     (if ok then handed \<and> (result = Some status \<or> status = TIMEOUT)
      else status = (if handed then DOWNSTREAM_FAIL else NOT_SUPPORTED))"
| "verdict_ok handed ok result Raised = (\<not> handed \<and> \<not> ok)"

definition verdict_of :: "threads \<Rightarrow> call \<Rightarrow> bool" where
  "verdict_of s c = verdict_ok (c \<in> fst ` set (sent s)) (c \<in> set (written s)) (results (disp s) c) (phase s c)"

lemma verdict_of_same:
  assumes "verdict_of s c" and "sent t = sent s" and "written t = written s"
    and "results (disp t) c = results (disp s) c" and "phase t c = phase s c"
  shows "verdict_of t c"
  using assms by (simp add: verdict_of_def)

lemma verdict_of_step:
  assumes "perform a s = Some t" and "numbering s" and "entries s" and "verdict_of s c"
  shows "verdict_of t c"
  using assms(1)
proof (cases rule: perform_cases)
  case (Begin r)
  then show ?thesis using assms(4) numbering_fresh [OF assms(2)]
    by (cases "c = made s") (simp_all add: verdict_of_def)
next
  case (Accepted cid status c')
  show ?thesis
  proof (cases "c' = c")
    case True
    have "entered (phase s c)" using entriesD(2) [OF assms(3) Accepted(1)] True by simp
    then show ?thesis using assms(4) Accepted(2) by (cases "phase s c") (simp_all add: verdict_of_def)
  next
    case False
    then show ?thesis using assms(4) Accepted
      by (intro verdict_of_same [OF assms(4)]) (simp_all add: fulfill_def erase_pending_def)
  qed
qed (use assms(4) in \<open>auto simp: verdict_of_def split: if_splits del: imageE\<close>)

lemma reachable_verdict: "dreachable s \<Longrightarrow> verdict_of s c"
proof (rule dispatching.invariant_with [where P = "\<lambda>s. verdict_of s c" and Q = "\<lambda>s. numbering s \<and> entries s"])
  fix s t
  assume "dstep s t" "numbering s \<and> entries s" "verdict_of s c"
  then show "verdict_of t c" by (auto elim!: dstepE intro: verdict_of_step)
qed (auto simp: verdict_of_def idle_threads_def intro: reachable_parts)

lemma returned_verdict:
  assumes "dreachable s" and "phase s c = Returned status"
  shows "if c \<in> set (written s) then c \<in> fst ` set (sent s) \<and> (results (disp s) c = Some status \<or> status = TIMEOUT)
    else status = (if c \<in> fst ` set (sent s) then DOWNSTREAM_FAIL else NOT_SUPPORTED)"
  using reachable_verdict [OF assms(1), of c] assms(2) by (simp add: verdict_of_def)

section \<open>A late answer\<close>

definition late_run :: "action list" where
  "late_run =
     [Open_stream 7, Begin empty_CommandRequest, Register 0, Enter_writer 0,
      Finish_write 0 (Wrote True), Expire 0, Answer 1 SUCCESS, Drop_expired 0]"

text \<open>
  C28: A \<open>fulfill\<close> can return true, with SUCCESS, for a command that has already timed out and
  returns TIMEOUT: the answer arrives after the wait has ended and before the entry is erased.
\<close>

theorem acknowledged_but_timed_out:
  "\<exists>s a. dreachable s \<and> a \<in> set (acks s) \<and> ack_status a = SUCCESS \<and>
     phase s (ack_call a) = Returned TIMEOUT"
proof -
  have "dreachable (run_from_start late_run)"
    by (rule run_reachable) (simp add: late_run_def run_simps)
  moreover have "acks (run_from_start late_run) =
      [\<lparr>ack_id = 1, ack_status = SUCCESS, ack_call = 0\<rparr>]"
    "phase (run_from_start late_run) 0 = Returned TIMEOUT"
    by (simp_all add: late_run_def run_simps)
  ultimately show ?thesis by (intro exI [of _ "run_from_start late_run"]) simp
qed

section \<open>The sequential function is a run of the threads\<close>

lemma perform_all_append:
  "perform_all (as @ bs) s =
     (case perform_all as s of None \<Rightarrow> None | Some t \<Rightarrow> perform_all bs t)"
  by (induction as arbitrary: s) (auto split: option.split)

definition answer_actions :: "(u64 \<times> CommandStatus) list \<Rightarrow> action list" where
  "answer_actions answers = map (\<lambda>(cid, status). Answer cid status) answers"

lemma answer_frame [simp]:
  "disp (snd (answer cid status s)) = snd (fulfill cid status (disp s))"
  "phase (snd (answer cid status s)) = phase s"
  "requests (snd (answer cid status s)) = requests s"
  by (simp_all add: answer_def split: prod.split)

lemma perform_answers:
  "\<exists>t. perform_all (answer_actions answers) s = Some t \<and>
     disp t = fulfill_all answers (disp s) \<and> phase t = phase s \<and> requests t = requests s"
proof (induction answers arbitrary: s)
  case Nil
  show ?case by (simp add: answer_actions_def)
next
  case (Cons a answers)
  obtain cid status where a: "a = (cid, status)" by (cases a)
  show ?case
    using Cons.IH [of "snd (answer cid status s)"] by (simp add: answer_actions_def a)
qed

text \<open>The steps of one undisturbed call.\<close>

definition call_actions :: "dispatch_env \<Rightarrow> dispatcher \<Rightarrow> call \<Rightarrow> CommandRequest \<Rightarrow> action list" where
  "call_actions env d c r =
     Begin r # Register c # Enter_writer c #
     (if active_writer d = None then [Drop c]
      else if env_write env \<noteq> Wrote True then [Finish_write c (env_write env), Drop c]
      else Finish_write c (env_write env) # answer_actions (env_answers env) @
        (case map_of (env_answers env) (next_id d) of
           None \<Rightarrow> [Expire c, Drop_expired c]
         | Some status \<Rightarrow> [Get c]))"

lemma call_begins:
  assumes "fresh_call (made s) (disp s)" and "writer_lock s = None"
  obtains u where
    "perform_all (call_actions env (disp s) (made s) r) s =
       perform_all (drop 2 (call_actions env (disp s) (made s) r)) u"
    "disp u = registered (made s) (disp s)" "phase u (made s) = Registered (next_id (disp s))"
    "requests u (made s) = r\<lparr>command_id := next_id (disp s)\<rparr>" "writer_lock u = None"
proof -
  let ?as = "call_actions env (disp s) (made s) r"
  have none: "pending (disp s) (next_id (disp s)) = None" using assms(1) by (simp add: fresh_call_def)
  obtain u where u: "perform_all [Begin r, Register (made s)] s = Some u"
    and fields: "disp u = registered (made s) (disp s)"
      "phase u (made s) = Registered (next_id (disp s))"
      "requests u (made s) = r\<lparr>command_id := next_id (disp s)\<rparr>" "writer_lock u = None"
    using none assms(2)
    by (simp add: register_call_def begin_dispatch_def take_id_def register_pending_def
        registered_def set_phase_def)
  have "perform_all ?as s = perform_all (drop 2 ?as) u"
    using perform_all_append [of "[Begin r, Register (made s)]" "drop 2 ?as" s] u
    by (simp add: call_actions_def)
  from that [OF this fields] show ?thesis .
qed

text \<open>From the registration on, with a successful \<open>Write\<close>: the answers, then the end of the wait.\<close>

lemma call_written:
  assumes "active_writer d = Some w" and "env_write env = Wrote True"
    and "disp u = registered c d" and "phase u c = Registered (next_id d)"
    and "requests u c = r'" and "writer_lock u = None"
  obtains t where
    "perform_all (drop 2 (call_actions env d c r)) u =
       perform_all (case map_of (env_answers env) (next_id d) of
           None \<Rightarrow> [Expire c, Drop_expired c] | Some status \<Rightarrow> [Get c]) t"
    "disp t = fulfill_all (env_answers env) (registered c d)"
    "phase t c = Awaiting (next_id d)" "requests t c = r'"
proof -
  define v where "v = set_phase c (Awaiting (next_id d))
    (u\<lparr>writer_lock := None, sent := sent u @ [(c, w, requests u c)], written := written u @ [c]\<rparr>)"
  obtain t where t: "perform_all (answer_actions (env_answers env)) v = Some t"
    "disp t = fulfill_all (env_answers env) (disp v)" "phase t = phase v" "requests t = requests v"
    using perform_answers by blast
  have v: "set_phase c (Awaiting (next_id d))
      (set_phase c (Writing (next_id d) w)
        (u\<lparr>writer_lock := Some c, sent := sent u @ [(c, w, requests u c)]\<rparr>)
        \<lparr>writer_lock := None, written := written u @ [c]\<rparr>) = v"
    by (simp add: v_def set_phase_def)
  show ?thesis
  proof (rule that)
    show "perform_all (drop 2 (call_actions env d c r)) u =
       perform_all (case map_of (env_answers env) (next_id d) of
           None \<Rightarrow> [Expire c, Drop_expired c] | Some status \<Rightarrow> [Get c]) t"
      using assms t(1) v
      by (simp add: call_actions_def enter_writer_def finish_write_def perform_all_append registered_def)
  qed (use t assms in \<open>simp_all add: v_def\<close>)
qed

text \<open>
  C24: The sequential model and the threaded one agree: a new call started while no other call
  holds the writer lock can be run, with the answers of its environment in between, to exactly
  the status, the outgoing request and the dispatcher state that \<open>dispatch\<close> computes.
\<close>

theorem dispatch_is_a_run:
  assumes "fresh_call (made s) (disp s)" and "writer_lock s = None"
    and "dispatch env (made s) r (disp s) = (Ret status, r', d')"
  shows "\<exists>t. perform_all (call_actions env (disp s) (made s) r) s = Some t \<and>
     disp t = d' \<and> phase t (made s) = Returned status \<and> requests t (made s) = r'"
proof -
  let ?c = "made s" and ?d = "disp s"
  obtain u where u: "perform_all (call_actions env ?d ?c r) s =
       perform_all (drop 2 (call_actions env ?d ?c r)) u"
    "disp u = registered ?c ?d" "phase u ?c = Registered (next_id ?d)"
    "requests u ?c = r\<lparr>command_id := next_id ?d\<rparr>" "writer_lock u = None"
    using call_begins [OF assms(1,2)] by blast
  note dispatch = dispatch_registered [OF assms(1), of env r]
  show ?thesis
  proof (cases "active_writer ?d = None \<or> env_write env \<noteq> Wrote True")
    case True
    then show ?thesis using assms(3) dispatch unfolding u(1)
      by (cases "active_writer ?d") (auto simp: call_actions_def enter_writer_def finish_write_def
          drop_entry_def write_stage_def write_failure_cases u registered_def erase_pending_def)
  next
    case False
    then obtain w where w: "active_writer ?d = Some w" "env_write env = Wrote True" by auto
    obtain t where t: "perform_all (drop 2 (call_actions env ?d ?c r)) u =
        perform_all (case map_of (env_answers env) (next_id ?d) of
           None \<Rightarrow> [Expire ?c, Drop_expired ?c] | Some status \<Rightarrow> [Get ?c]) t"
      and fields: "disp t = fulfill_all (env_answers env) (registered ?c ?d)"
      "phase t ?c = Awaiting (next_id ?d)" "requests t ?c = r\<lparr>command_id := next_id ?d\<rparr>"
      using call_written [OF w u(2-5), of r] by blast
    have "results (disp t) ?c = map_of (env_answers env) (next_id ?d)"
      unfolding fields(1) by (rule registered_results [OF assms(1)])
    moreover have "wait_stage ?c (next_id ?d) (disp t) = (status, d')"
      "r' = r\<lparr>command_id := next_id ?d\<rparr>"
      using assms(3) w unfolding dispatch fields(1)
      by (simp_all add: write_stage_def write_failure_cases registered_def split: prod.splits)
    ultimately show ?thesis using fields unfolding u(1)
      by (auto simp: t wait_stage_def get_result_def expire_wait_def drop_expired_def
          set_phase_def split: option.splits)
  qed
qed

theorem dispatch_is_a_run_witness:
  "\<exists>t. perform_all
       (call_actions \<lparr>env_write = Wrote True, env_answers = [(1, LOCAL)]\<rparr>
         new_dispatcher 0 empty_CommandRequest) idle_threads = Some t \<and>
     phase t 0 = Returned NOT_SUPPORTED"
proof -
  let ?env = "\<lparr>env_write = Wrote True, env_answers = [(1, LOCAL)]\<rparr>"
  obtain st r' d' where d: "dispatch ?env 0 empty_CommandRequest new_dispatcher = (Ret st, r', d')"
    and st: "st = NOT_SUPPORTED"
    by (simp add: dispatch_def dispatcher_ops new_dispatcher_def Let_def)
  have init: "made idle_threads = 0" "disp idle_threads = new_dispatcher"
    "writer_lock idle_threads = None" "fresh_call 0 new_dispatcher"
    by (simp_all add: idle_threads_def fresh_call_def new_dispatcher_def)
  show ?thesis
    using dispatch_is_a_run [of idle_threads ?env empty_CommandRequest st r' d'] d init(4)
    unfolding init st by blast
qed

end
