(* ===== verification/DispatcherTime.thy ===== *)
theory DispatcherTime
  imports DispatcherProgress AppConfig
begin

text \<open>
  The timeout of \<open>CommandDispatcher\<close> (\<open>src/src/dnp3/CommandDispatcher.cpp\<close>): the threads of
  \<open>DispatcherThreads\<close> with a clock. \<open>future.wait_for(timeout_)\<close> reports a timeout only when no
  value was set and the timeout has passed since the wait began; everything else may take any time.
\<close>

section \<open>State\<close>

text \<open>
  The clock counts milliseconds. \<open>waiting_since\<close> is the moment a call enters \<open>wait_for\<close>;
  \<open>answered_at\<close> records the moment of an accepted \<open>fulfill\<close> and is read by no step.
\<close>

record timed =
  thr :: threads
  clock :: nat
  waiting_since :: "call \<Rightarrow> nat"
  answered_at :: "call \<rightharpoonup> nat"

definition timed_start :: timed where
  "timed_start =
     \<lparr>thr = idle_threads, clock = 0, waiting_since = (\<lambda>c. 0), answered_at = Map.empty\<rparr>"

text \<open>The timeout \<open>main\<close> gives to the dispatcher.\<close>

definition configured_timeout :: "AppConfig \<Rightarrow> nat" where
  "configured_timeout cfg = unat (command_timeout_ms cfg)"

section \<open>Steps\<close>

text \<open>When the wait of a call may report a timeout; no other step depends on the clock.\<close>

fun due :: "nat \<Rightarrow> action \<Rightarrow> timed \<Rightarrow> bool" where
  "due timeout (Expire c) s = (waiting_since s c + timeout \<le> clock s)"
| "due timeout (Begin r) s = True"
| "due timeout (Register c) s = True"
| "due timeout (Enter_writer c) s = True"
| "due timeout (Finish_write c oc) s = True"
| "due timeout (Drop c) s = True"
| "due timeout (Get c) s = True"
| "due timeout (Drop_expired c) s = True"
| "due timeout (Answer cid status) s = True"
| "due timeout (Open_stream w) s = True"
| "due timeout (Close_stream w) s = True"

text \<open>The moments an action notes: the wait begins when \<open>Write\<close> has returned true.\<close>

fun stamp :: "action \<Rightarrow> timed \<Rightarrow> timed" where
  "stamp (Finish_write c oc) s =
     (if oc = Wrote True then s\<lparr>waiting_since := (waiting_since s)(c := clock s)\<rparr> else s)"
| "stamp (Answer cid status) s =
     (case pending (disp (thr s)) cid of
        None \<Rightarrow> s
      | Some c \<Rightarrow> s\<lparr>answered_at := (answered_at s)(c \<mapsto> clock s)\<rparr>)"
| "stamp (Begin r) s = s"
| "stamp (Register c) s = s"
| "stamp (Enter_writer c) s = s"
| "stamp (Drop c) s = s"
| "stamp (Get c) s = s"
| "stamp (Expire c) s = s"
| "stamp (Drop_expired c) s = s"
| "stamp (Open_stream w) s = s"
| "stamp (Close_stream w) s = s"

definition timed_perform :: "nat \<Rightarrow> action \<Rightarrow> timed \<Rightarrow> timed option" where
  "timed_perform timeout a s =
     (if due timeout a s then map_option (\<lambda>t. (stamp a s)\<lparr>thr := t\<rparr>) (perform a (thr s)) else None)"

definition tick :: "nat \<Rightarrow> timed \<Rightarrow> timed" where
  "tick d s = s\<lparr>clock := clock s + d\<rparr>"

inductive tstep :: "nat \<Rightarrow> timed \<Rightarrow> timed \<Rightarrow> bool" for timeout where
  tstep_tick: "tstep timeout s (tick d s)"
| tstep_action: "timed_perform timeout a s = Some t \<Longrightarrow> tstep timeout s t"

inductive_cases tstepE: "tstep timeout s t"

inductive treachable :: "nat \<Rightarrow> timed \<Rightarrow> bool" for timeout where
  treachable_initial: "treachable timeout timed_start"
| treachable_step: "treachable timeout s \<Longrightarrow> tstep timeout s t \<Longrightarrow> treachable timeout t"

lemma treachable_least:
  assumes "treachable timeout s" and "\<And>s. s = timed_start \<Longrightarrow> P s"
    and "\<And>s t. treachable timeout s \<Longrightarrow> P s \<Longrightarrow> tstep timeout s t \<Longrightarrow> P t"
  shows "P s"
  using assms(1)
proof (induction rule: treachable.induct)
  case treachable_initial
  show ?case by (rule assms(2)) (rule refl)
next
  case (treachable_step s t)
  show ?case by (rule assms(3)) (fact treachable_step)+
qed

interpretation timing: transition_system "\<lambda>s. s = timed_start" "tstep timeout" "treachable timeout"
  for timeout
  by unfold_locales (fact treachable_least | blast intro: treachable.intros)+

lemma timed_perform_Some:
  "timed_perform timeout a s = Some t \<longleftrightarrow>
     due timeout a s \<and> (\<exists>u. perform a (thr s) = Some u \<and> t = (stamp a s)\<lparr>thr := u\<rparr>)"
  by (auto simp: timed_perform_def)

lemma stamp_frame [simp]: "clock (stamp a s) = clock s" "thr (stamp a s) = thr s"
  by (cases a; simp split: option.split)+

text \<open>Without its clock the timed system is that of the threads: each step is one of theirs or none.\<close>

interpretation threads_in_time: component "\<lambda>s. s = timed_start" "tstep timeout" "treachable timeout"
    "\<lambda>s. s = idle_threads" dstep dreachable thr
  for timeout
proof unfold_locales
  show "tstep timeout s t \<Longrightarrow> thr t = thr s \<or> dstep (thr s) (thr t)" for s t
    by (erule tstepE) (auto simp: tick_def timed_perform_Some intro: dstep_perform)
qed (simp add: timed_start_def)

lemma timed_parts:
  assumes "treachable timeout s"
  shows "dreachable (thr s)" "numbering (thr s)" "entries (thr s)" "answered (thr s)" "returns (thr s)"
  using threads_in_time.part_reached [OF assms] reachable_parts by blast+

text \<open>Conversely the clock forbids nothing for ever: it need only be late enough.\<close>

lemma due_later: "due timeout a (tick (waiting_since s (actor a) + timeout) s)"
  by (cases a) (simp_all add: tick_def)

lemma every_thread_state_in_time: "dreachable d \<Longrightarrow> \<exists>s. treachable timeout s \<and> thr s = d"
proof (induction rule: dreachable.induct)
  case dreachable_initial
  show ?case by (intro exI [of _ timed_start] conjI treachable_initial) (simp add: timed_start_def)
next
  case (dreachable_step d e)
  then obtain s a where s: "treachable timeout s" "thr s = d" and a: "perform a d = Some e"
    by (auto elim: dstepE)
  let ?s = "tick (waiting_since s (actor a) + timeout) s"
  have "treachable timeout ?s" using s(1) tstep_tick by (rule treachable_step)
  moreover have "timed_perform timeout a ?s = Some ((stamp a ?s)\<lparr>thr := e\<rparr>)"
    using due_later a s(2) by (simp add: timed_perform_Some) (simp add: tick_def)
  ultimately have "treachable timeout ((stamp a ?s)\<lparr>thr := e\<rparr>)"
    by (rule treachable_step [OF _ tstep_action])
  then show ?case by (intro exI conjI) (assumption, simp)
qed

section \<open>Timeouts are timely\<close>

text \<open>
  \<open>deadline\<close> is the moment from which the wait of a call may report a timeout. A call gives up when
  its wait has reported one, up to its return.
\<close>

definition deadline :: "nat \<Rightarrow> timed \<Rightarrow> call \<Rightarrow> nat" where
  "deadline timeout s c = waiting_since s c + timeout"

definition gave_up :: "threads \<Rightarrow> call \<Rightarrow> bool" where
  "gave_up d c \<longleftrightarrow> (\<exists>cid. phase d c = Expired cid) \<or>
     phase d c = Returned TIMEOUT \<and> results (disp d) c \<noteq> Some TIMEOUT"

definition call_on_time :: "nat \<Rightarrow> timed \<Rightarrow> call \<Rightarrow> bool" where
  "call_on_time timeout s c \<longleftrightarrow>
     (answered_at s c = None \<longleftrightarrow> results (disp (thr s)) c = None) \<and>
     (gave_up (thr s) c \<longrightarrow> deadline timeout s c \<le> clock s \<and>
        (\<forall>t. answered_at s c = Some t \<longrightarrow> deadline timeout s c \<le> t))"

lemma call_on_time_tick: "call_on_time timeout s c \<Longrightarrow> call_on_time timeout (tick d s) c"
  by (auto simp: call_on_time_def tick_def deadline_def)

lemma call_on_time_same:
  assumes "call_on_time timeout s c" and "clock t = clock s" and "answered_at t c = answered_at s c"
    and "results (disp (thr t)) c = results (disp (thr s)) c"
    and "gave_up (thr t) c \<Longrightarrow> gave_up (thr s) c \<and> waiting_since t c = waiting_since s c"
  shows "call_on_time timeout t c"
  using assms by (auto simp: call_on_time_def deadline_def)

lemma internal_results: "internal a \<Longrightarrow> perform a d = Some e \<Longrightarrow> results (disp e) = results (disp d)"
  by (cases a) (auto simp: ops_Some erase_pending_def split: if_splits option.splits)

lemma internal_stamp:
  assumes "internal a"
  shows "answered_at (stamp a s) = answered_at s"
    and "c \<noteq> actor a \<Longrightarrow> waiting_since (stamp a s) c = waiting_since s c"
  using assms by (cases a; simp)+

text \<open>Among its own steps only the expiry of its wait makes a call give up.\<close>

lemma gives_up:
  assumes "perform a d = Some e" and "internal a" and "returns d" and "gave_up e (actor a)"
  shows "a = Expire (actor a) \<and> results (disp d) (actor a) = None \<or>
    gave_up d (actor a) \<and> (\<forall>c oc. a \<noteq> Finish_write c oc)"
proof (cases a)
  case (Drop c)
  have "status = NOT_SUPPORTED \<or> status = DOWNSTREAM_FAIL" if "phase d c = Dropping cid status"
    for cid status
    using assms(3) that unfolding returns_def by blast
  then have "phase d c \<noteq> Dropping cid TIMEOUT" for cid by blast
  then show ?thesis using assms(1,4) Drop by (auto simp: drop_entry_Some gave_up_def)
qed (use assms(1,2,4) in \<open>auto simp: ops_Some gave_up_def erase_pending_def split: if_splits option.splits\<close>)

lemma call_on_time_internal:
  assumes "timed_perform timeout a s = Some t" and "internal a" and "returns (thr s)"
    and "call_on_time timeout s c"
  shows "call_on_time timeout t c"
proof -
  obtain e where due: "due timeout a s" and e: "perform a (thr s) = Some e"
    and t: "t = (stamp a s)\<lparr>thr := e\<rparr>"
    using assms(1) by (auto simp: timed_perform_Some)
  have frame: "clock t = clock s" "answered_at t c = answered_at s c"
    "results (disp (thr t)) c = results (disp (thr s)) c"
    using internal_results [OF assms(2) e] internal_stamp(1) [OF assms(2), of s]
    by (simp_all add: t)
  show ?thesis
  proof (cases "c = actor a \<and> gave_up e c \<and> a = Expire c \<and> results (disp (thr s)) c = None")
    case True
    then have a: "a = Expire c" and none: "results (disp (thr s)) c = None" by blast+
    have "deadline timeout t c \<le> clock t" using due frame(1) by (simp add: a t deadline_def)
    moreover have "answered_at t c = None" "results (disp (thr t)) c = None"
      using assms(4) none frame by (simp_all add: call_on_time_def)
    ultimately show ?thesis by (simp add: call_on_time_def)
  next
    case False
    have "gave_up (thr s) c \<and> waiting_since t c = waiting_since s c" if "gave_up (thr t) c"
    proof (cases "c = actor a")
      case True
      then have "gave_up (thr s) c \<and> (\<forall>c oc. a \<noteq> Finish_write c oc)"
        using gives_up [OF e assms(2,3)] that False unfolding t by fastforce
      then show ?thesis using assms(2) by (cases a) (simp_all add: t)
    next
      case other: False
      have "phase e c = phase (thr s) c"
        using internal_phase [OF assms(2) e] other by (metis fun_upd_other)
      then show ?thesis
        using that frame internal_stamp(2) [OF assms(2) other, of s] by (simp add: t gave_up_def)
    qed
    with assms(4) frame show ?thesis by (blast intro: call_on_time_same)
  qed
qed

lemma call_on_time_action:
  assumes "timed_perform timeout a s = Some t" and "entries (thr s)" and "returns (thr s)"
    and "call_on_time timeout s c"
  shows "call_on_time timeout t c"
proof (cases "internal a")
  case True
  from assms(1) True assms(3,4) show ?thesis by (rule call_on_time_internal)
next
  case False
  then show ?thesis
  proof (cases a)
    case (Answer cid status)
    show ?thesis
    proof (cases "pending (disp (thr s)) cid")
      case None
      then have "t = s" using assms(1) Answer by (simp add: timed_perform_Some answer_refused)
      with assms(4) show ?thesis by simp
    next
      case (Some c')
      have "entered (phase (thr s) c')" using entriesD [OF assms(2) Some] by simp
      then have "phase (thr s) c' \<noteq> Returned TIMEOUT" by auto
      then show ?thesis using assms(1,4) Answer Some
        by (auto simp: timed_perform_Some answer_accepted fulfill_def call_on_time_def gave_up_def
            deadline_def erase_pending_def)
    qed
  next
    case (Begin r)
    then show ?thesis using assms(1,4)
      by (intro call_on_time_same [OF assms(4)])
        (auto simp: timed_perform_Some gave_up_def take_id_def split: if_splits)
  qed (use assms(1) in \<open>auto simp: timed_perform_Some ops_Some gave_up_def
        intro!: call_on_time_same [OF assms(4)]\<close>)
qed

lemma treachable_call_on_time: "treachable timeout s \<Longrightarrow> call_on_time timeout s c"
proof (rule timing.invariant_with [where P = "\<lambda>s. call_on_time timeout s c"
      and Q = "\<lambda>s. entries (thr s) \<and> returns (thr s)"])
  fix s t
  assume "tstep timeout s t" and "entries (thr s) \<and> returns (thr s)" and "call_on_time timeout s c"
  then show "call_on_time timeout t c"
    by (auto elim!: tstepE intro: call_on_time_tick call_on_time_action)
qed (auto simp: timed_parts call_on_time_def timed_start_def gave_up_def idle_threads_def new_dispatcher_def)

lemma waiting_can_end:
  assumes "phase (thr s) c = Awaiting cid" and "deadline timeout s c \<le> clock s"
  shows "timed_perform timeout (Get c) s \<noteq> None \<or> timed_perform timeout (Expire c) s \<noteq> None"
  using assms
  by (cases "results (disp (thr s)) c")
    (simp_all add: timed_perform_def deadline_def get_result_def expire_wait_def)

lemma timed_verdict:
  assumes "treachable timeout s" and "phase (thr s) c = Returned status"
  shows "c \<in> set (written (thr s)) \<Longrightarrow> results (disp (thr s)) c = Some status \<or> status = TIMEOUT"
    and "c \<notin> set (written (thr s)) \<Longrightarrow> status = DOWNSTREAM_FAIL \<or> status = NOT_SUPPORTED"
  using returned_verdict [OF timed_parts(1) [OF assms(1)] assms(2)] by (auto split: if_splits)

text \<open>
  C13: The configured timeout is kept, on both sides, under any interleaving. A command returns
  TIMEOUT only if its request was written, and then only if the client said so or
  \<open>command_timeout_ms\<close> milliseconds have passed since. A command whose request was written and that is answered
  before that moment returns exactly the status of that answer, however late the waiting
  thread runs. Once the moment has come, a command that still waits can go on at once. Leaving the
  clock out loses nothing: the threads of the dispatcher reach the same states with it.
\<close>

theorem configured_timeout_decides:
  assumes "treachable (configured_timeout cfg) s"
  shows "(phase (thr s) c = Returned TIMEOUT \<longrightarrow> c \<in> set (written (thr s)) \<and>
      ((\<exists>a \<in> set (acks (thr s)). ack_call a = c \<and> ack_status a = TIMEOUT) \<or>
       waiting_since s c + unat (command_timeout_ms cfg) \<le> clock s)) \<and>
    (c \<in> set (written (thr s)) \<and> answered_at s c = Some t \<and>
      t < waiting_since s c + unat (command_timeout_ms cfg) \<and> phase (thr s) c = Returned status \<longrightarrow>
        (\<exists>a \<in> set (acks (thr s)). ack_call a = c) \<and>
        (\<forall>a \<in> set (acks (thr s)). ack_call a = c \<longrightarrow> ack_status a = status)) \<and>
    (phase (thr s) c = Awaiting cid \<and> waiting_since s c + unat (command_timeout_ms cfg) \<le> clock s \<longrightarrow>
      timed_perform (configured_timeout cfg) (Get c) s \<noteq> None \<or>
      timed_perform (configured_timeout cfg) (Expire c) s \<noteq> None) \<and>
    (dreachable d \<longleftrightarrow> (\<exists>s. treachable (configured_timeout cfg) s \<and> thr s = d))"
proof (intro conjI)
  note on_time = treachable_call_on_time [OF assms, of c, unfolded call_on_time_def deadline_def
      configured_timeout_def]
  note verdict = timed_verdict [OF assms, of c]
  have acked: "\<exists>a \<in> set (acks (thr s)). ack_call a = c" if "results (disp (thr s)) c = Some st" for st
    using timed_parts(4) [OF assms] that by (fastforce simp: answered_def)
  have ack: "results (disp (thr s)) c = Some (ack_status a)" if "a \<in> set (acks (thr s))" "ack_call a = c" for a
    using timed_parts(4) [OF assms] that by (auto simp: answered_def)
  have gave_up: "results (disp (thr s)) c = Some st \<or> gave_up (thr s) c"
    if "phase (thr s) c = Returned st" "c \<in> set (written (thr s))" for st
    using verdict(1) [OF that] that(1) by (auto simp: gave_up_def)
  show "phase (thr s) c = Returned TIMEOUT \<longrightarrow> c \<in> set (written (thr s)) \<and>
      ((\<exists>a \<in> set (acks (thr s)). ack_call a = c \<and> ack_status a = TIMEOUT) \<or>
       waiting_since s c + unat (command_timeout_ms cfg) \<le> clock s)"
    using verdict(2) [of TIMEOUT] gave_up [of TIMEOUT] acked [of TIMEOUT] ack on_time by fastforce
  show "c \<in> set (written (thr s)) \<and> answered_at s c = Some t \<and>
      t < waiting_since s c + unat (command_timeout_ms cfg) \<and> phase (thr s) c = Returned status \<longrightarrow>
        (\<exists>a \<in> set (acks (thr s)). ack_call a = c) \<and>
        (\<forall>a \<in> set (acks (thr s)). ack_call a = c \<longrightarrow> ack_status a = status)"
    using gave_up [of status] acked [of status] ack on_time by fastforce
  show "phase (thr s) c = Awaiting cid \<and> waiting_since s c + unat (command_timeout_ms cfg) \<le> clock s \<longrightarrow>
      timed_perform (configured_timeout cfg) (Get c) s \<noteq> None \<or>
      timed_perform (configured_timeout cfg) (Expire c) s \<noteq> None"
    using waiting_can_end [of s c cid "configured_timeout cfg"]
    by (simp add: deadline_def configured_timeout_def)
  show "dreachable d \<longleftrightarrow> (\<exists>s. treachable (configured_timeout cfg) s \<and> thr s = d)"
    using every_thread_state_in_time [of d "configured_timeout cfg"] threads_in_time.part_reached by blast
qed

fun timed_run :: "nat \<Rightarrow> (nat \<times> action) list \<Rightarrow> timed \<Rightarrow> timed option" where
  "timed_run timeout [] s = Some s"
| "timed_run timeout ((d, a) # as) s =
     Option.bind (timed_perform timeout a (tick d s)) (timed_run timeout as)"

lemma timed_run_reachable:
  "timed_run timeout as s = Some t \<Longrightarrow> treachable timeout s \<Longrightarrow> treachable timeout t"
proof (induction as arbitrary: s)
  case (Cons da as)
  obtain d a where "da = (d, a)" by (cases da)
  with Cons.prems(1) obtain u where u: "timed_perform timeout a (tick d s) = Some u"
    "timed_run timeout as u = Some t" by (auto simp: bind_eq_Some_conv)
  have "treachable timeout (tick d s)" using Cons.prems(2) tstep_tick by (rule treachable_step)
  then have "treachable timeout u" using tstep_action [OF u(1)] by (rule treachable_step)
  with u(2) show ?case by (rule Cons.IH)
qed simp

text \<open>An answer in the last millisecond, found by a thread that runs a second too late.\<close>

definition last_moment :: "(nat \<times> action) list" where
  "last_moment =
     [(0, Open_stream 7), (5, Begin empty_CommandRequest), (0, Register 0), (0, Enter_writer 0),
      (2, Finish_write 0 (Wrote True)), (2999, Answer 1 LOCAL), (1000, Get 0)]"

theorem configured_timeout_decides_witness:
  "\<exists>s. treachable (configured_timeout default_AppConfig) s \<and> clock s = 4006 \<and>
     phase (thr s) 0 = Returned LOCAL \<and>
     (\<exists>a \<in> set (acks (thr s)). ack_call a = 0 \<and> ack_status a = LOCAL)"
proof -
  have "unat (command_timeout_ms default_AppConfig) = 3000" by (simp add: default_AppConfig_def)
  moreover obtain s where run: "timed_run 3000 last_moment timed_start = Some s"
    and s: "clock s = 4006" "phase (thr s) 0 = Returned LOCAL" "answered_at s 0 = Some 3006"
      "waiting_since s 0 = 7" "0 \<in> set (written (thr s))"
    by (simp add: last_moment_def timed_start_def timed_perform_def tick_def run_simps)
  moreover have "treachable 3000 s" using run treachable_initial by (rule timed_run_reachable)
  ultimately show ?thesis
    using configured_timeout_decides [of default_AppConfig s 0 3006 LOCAL]
    by (intro exI [of _ s]) (auto simp: configured_timeout_def)
qed

end
