(* ===== verification/CommandHandler.thy ===== *)
theory CommandHandler
  imports Dispatcher
begin

text \<open>
  \<open>src/src/dnp3/ForwardingCommandHandler.cpp\<close>: the command callbacks opendnp3 makes. A command
  is the opendnp3 object the callback receives; every \<open>Operate\<close> builds a \<open>CommandRequest\<close> and
  hands it to the dispatcher, whose \<open>dispatch\<close> is an argument here.
\<close>

section \<open>Commands\<close>

datatype CommandMode = DirectOperate | SelectBeforeOperate

text \<open>\<open>Other_operation\<close> stands for every code the switch does not name.\<close>

datatype OperationType = NUL | PULSE_ON | PULSE_OFF | LATCH_ON | LATCH_OFF | Other_operation u8

record ControlRelayOutputBlock =
  opType :: OperationType
  count :: u8
  onTimeMS :: u32
  offTimeMS :: u32

datatype command =
  Relay ControlRelayOutputBlock
| AnalogOutputInt16 "16 word"
| AnalogOutputInt32 "32 word"
| AnalogOutputFloat32 float32
| AnalogOutputDouble64 double

fun toCrobOperation :: "OperationType \<Rightarrow> CrobOperationType" where
  "toCrobOperation NUL = CROB_OPERATION_NUL"
| "toCrobOperation PULSE_ON = CROB_OPERATION_PULSE_ON"
| "toCrobOperation PULSE_OFF = CROB_OPERATION_PULSE_OFF"
| "toCrobOperation LATCH_ON = CROB_OPERATION_LATCH_ON"
| "toCrobOperation LATCH_OFF = CROB_OPERATION_LATCH_OFF"
| "toCrobOperation (Other_operation code) = CROB_OPERATION_NUL"

section \<open>Callbacks\<close>

text \<open>The five overloads of \<open>Select\<close>, then the choice opendnp3 makes by the type of the command.\<close>

definition Select_crob :: "CommandMode \<Rightarrow> ControlRelayOutputBlock \<Rightarrow> u16 \<Rightarrow> CommandStatus" where
  "Select_crob mode crob index = (if mode = DirectOperate then NOT_SUPPORTED else SUCCESS)"

definition Select_int16 :: "CommandMode \<Rightarrow> 16 word \<Rightarrow> u16 \<Rightarrow> CommandStatus" where
  "Select_int16 mode v index = (if mode = DirectOperate then NOT_SUPPORTED else SUCCESS)"

definition Select_int32 :: "CommandMode \<Rightarrow> 32 word \<Rightarrow> u16 \<Rightarrow> CommandStatus" where
  "Select_int32 mode v index = (if mode = DirectOperate then NOT_SUPPORTED else SUCCESS)"

definition Select_float32 :: "CommandMode \<Rightarrow> float32 \<Rightarrow> u16 \<Rightarrow> CommandStatus" where
  "Select_float32 mode v index = (if mode = DirectOperate then NOT_SUPPORTED else SUCCESS)"

definition Select_double64 :: "CommandMode \<Rightarrow> double \<Rightarrow> u16 \<Rightarrow> CommandStatus" where
  "Select_double64 mode v index = (if mode = DirectOperate then NOT_SUPPORTED else SUCCESS)"

fun Select :: "CommandMode \<Rightarrow> command \<Rightarrow> u16 \<Rightarrow> CommandStatus" where
  "Select mode (Relay crob) index = Select_crob mode crob index"
| "Select mode (AnalogOutputInt16 v) index = Select_int16 mode v index"
| "Select mode (AnalogOutputInt32 v) index = Select_int32 mode v index"
| "Select mode (AnalogOutputFloat32 v) index = Select_float32 mode v index"
| "Select mode (AnalogOutputDouble64 v) index = Select_double64 mode v index"

type_synonym ('x, 'd) dispatch_fun =
  "CommandRequest \<Rightarrow> 'd \<Rightarrow> ('x, CommandStatus) outcome \<times> 'd"

text \<open>Both catch clauses turn whatever \<open>dispatch\<close> throws into \<open>DOWNSTREAM_FAIL\<close>.\<close>

definition guarded ::
  "('x, 'd) dispatch_fun \<Rightarrow> CommandRequest \<Rightarrow> 'd \<Rightarrow> CommandStatus \<times> 'd" where
  "guarded send request d =
     (case send request d of
        (Throw x, d') \<Rightarrow> (DOWNSTREAM_FAIL, d')
      | (Ret status, d') \<Rightarrow> (status, d'))"

definition crob_payload :: "ControlRelayOutputBlock \<Rightarrow> CrobCommand" where
  "crob_payload crob =
     \<lparr>operation = toCrobOperation (opType crob), crob_count = ucast (count crob),
      on_time_ms = onTimeMS crob, off_time_ms = offTimeMS crob\<rparr>"

definition crob_request :: "ControlRelayOutputBlock \<Rightarrow> u16 \<Rightarrow> CommandRequest" where
  "crob_request crob index = empty_CommandRequest
     \<lparr>point_index := ucast index, command_type := COMMAND_TYPE_CROB,
      payload := Some (Crob (crob_payload crob))\<rparr>"

definition analog_request :: "u16 \<Rightarrow> double \<Rightarrow> CommandType \<Rightarrow> CommandRequest" where
  "analog_request index v type = empty_CommandRequest
     \<lparr>point_index := ucast index, command_type := type, payload := Some (Analog_value v)\<rparr>"

definition Operate_crob ::
  "('x, 'd) dispatch_fun \<Rightarrow> ControlRelayOutputBlock \<Rightarrow> u16 \<Rightarrow> 'd \<Rightarrow> CommandStatus \<times> 'd" where
  "Operate_crob send crob index d = guarded send (crob_request crob index) d"

definition dispatchAnalog ::
  "('x, 'd) dispatch_fun \<Rightarrow> u16 \<Rightarrow> double \<Rightarrow> CommandType \<Rightarrow> 'd \<Rightarrow> CommandStatus \<times> 'd" where
  "dispatchAnalog send index v type d = guarded send (analog_request index v type) d"

text \<open>The casts of the integer and float values to \<open>double\<close> are exact.\<close>

definition Operate_int16 ::
  "('x, 'd) dispatch_fun \<Rightarrow> 16 word \<Rightarrow> u16 \<Rightarrow> 'd \<Rightarrow> CommandStatus \<times> 'd" where
  "Operate_int16 send v index d =
     dispatchAnalog send index (double_of_int (sint v)) COMMAND_TYPE_ANALOG_INT16 d"

definition Operate_int32 ::
  "('x, 'd) dispatch_fun \<Rightarrow> 32 word \<Rightarrow> u16 \<Rightarrow> 'd \<Rightarrow> CommandStatus \<times> 'd" where
  "Operate_int32 send v index d =
     dispatchAnalog send index (double_of_int (sint v)) COMMAND_TYPE_ANALOG_INT32 d"

definition Operate_float32 ::
  "('x, 'd) dispatch_fun \<Rightarrow> float32 \<Rightarrow> u16 \<Rightarrow> 'd \<Rightarrow> CommandStatus \<times> 'd" where
  "Operate_float32 send v index d =
     dispatchAnalog send index (double_of_float v) COMMAND_TYPE_ANALOG_FLOAT32 d"

definition Operate_double64 ::
  "('x, 'd) dispatch_fun \<Rightarrow> double \<Rightarrow> u16 \<Rightarrow> 'd \<Rightarrow> CommandStatus \<times> 'd" where
  "Operate_double64 send v index d =
     dispatchAnalog send index v COMMAND_TYPE_ANALOG_DOUBLE64 d"

text \<open>The overload by the type of the command.\<close>

fun Operate ::
  "('x, 'd) dispatch_fun \<Rightarrow> command \<Rightarrow> u16 \<Rightarrow> 'd \<Rightarrow> CommandStatus \<times> 'd" where
  "Operate send (Relay crob) index d = Operate_crob send crob index d"
| "Operate send (AnalogOutputInt16 v) index d = Operate_int16 send v index d"
| "Operate send (AnalogOutputInt32 v) index d = Operate_int32 send v index d"
| "Operate send (AnalogOutputFloat32 v) index d = Operate_float32 send v index d"
| "Operate send (AnalogOutputDouble64 v) index d = Operate_double64 send v index d"

lemmas select_overloads =
  Select_crob_def Select_int16_def Select_int32_def Select_float32_def Select_double64_def

lemmas operate_overloads =
  Operate_crob_def Operate_int16_def Operate_int32_def Operate_float32_def Operate_double64_def
  dispatchAnalog_def

section \<open>The request of a command\<close>

text \<open>The request that \<open>Operate\<close> hands to \<open>dispatch\<close>, seen by a \<open>dispatch\<close> that only keeps it.\<close>

definition request_of :: "command \<Rightarrow> u16 \<Rightarrow> CommandRequest" where
  "request_of cmd index =
     snd (Operate (\<lambda>request d. (Ret SUCCESS :: (unit, CommandStatus) outcome, request)) cmd index
       empty_CommandRequest)"

lemma request_of_simps [simp]:
  "request_of (Relay crob) index = crob_request crob index"
  "request_of (AnalogOutputInt16 v) index =
     analog_request index (double_of_int (sint v)) COMMAND_TYPE_ANALOG_INT16"
  "request_of (AnalogOutputInt32 w) index =
     analog_request index (double_of_int (sint w)) COMMAND_TYPE_ANALOG_INT32"
  "request_of (AnalogOutputFloat32 x) index =
     analog_request index (double_of_float x) COMMAND_TYPE_ANALOG_FLOAT32"
  "request_of (AnalogOutputDouble64 y) index = analog_request index y COMMAND_TYPE_ANALOG_DOUBLE64"
  by (simp_all add: request_of_def operate_overloads guarded_def)

lemma Operate_guarded: "Operate send cmd index d = guarded send (request_of cmd index) d"
  by (cases cmd) (simp_all add: operate_overloads)

text \<open>
  How a client of the bridge reads a request, independently of the code that built it. It takes
  nothing that is not exactly what an \<open>Operate\<close> can have been given: an index of 16 bits, a count of
  8 bits, a value of the type the request names.
\<close>

fun decode_operation :: "CrobOperationType \<Rightarrow> OperationType" where
  "decode_operation CROB_OPERATION_NUL = NUL"
| "decode_operation CROB_OPERATION_PULSE_ON = PULSE_ON"
| "decode_operation CROB_OPERATION_PULSE_OFF = PULSE_OFF"
| "decode_operation CROB_OPERATION_LATCH_ON = LATCH_ON"
| "decode_operation CROB_OPERATION_LATCH_OFF = LATCH_OFF"

fun undouble :: "double \<Rightarrow> int" where
  "undouble v = dvalue v div int one_units"

fun unfloat :: "double \<Rightarrow> float32" where
  "unfloat (Fin neg m) = FFin neg (m div 2 ^ 925)"
| "unfloat (Inf neg) = FInf neg"
| "unfloat NaN = FNaN"

definition decode_request :: "CommandRequest \<Rightarrow> (u16 \<times> command) option" where
  "decode_request r =
     (let index = ucast (point_index r);
          exactly = (\<lambda>same cmd. if same \<and> ucast index = point_index r then Some (index, cmd) else None)
      in case (command_type r, payload r) of
        (COMMAND_TYPE_CROB, Some (Crob c)) \<Rightarrow>
          (let n = ucast (crob_count c) in exactly (ucast n = crob_count c) (Relay
            \<lparr>opType = decode_operation (operation c), count = n,
             onTimeMS = on_time_ms c, offTimeMS = off_time_ms c\<rparr>))
      | (COMMAND_TYPE_ANALOG_INT16, Some (Analog_value v)) \<Rightarrow>
          (let n = of_int (undouble v) in exactly (double_of_int (sint n) = v) (AnalogOutputInt16 n))
      | (COMMAND_TYPE_ANALOG_INT32, Some (Analog_value v)) \<Rightarrow>
          (let n = of_int (undouble v) in exactly (double_of_int (sint n) = v) (AnalogOutputInt32 n))
      | (COMMAND_TYPE_ANALOG_FLOAT32, Some (Analog_value v)) \<Rightarrow>
          exactly (double_of_float (unfloat v) = v) (AnalogOutputFloat32 (unfloat v))
      | (COMMAND_TYPE_ANALOG_DOUBLE64, Some (Analog_value v)) \<Rightarrow>
          exactly True (AnalogOutputDouble64 v)
      | _ \<Rightarrow> None)"

text \<open>The command as it is forwarded: an operation code the bridge does not know becomes NUL.\<close>

fun known_operation :: "OperationType \<Rightarrow> OperationType" where
  "known_operation (Other_operation code) = NUL"
| "known_operation NUL = NUL"
| "known_operation PULSE_ON = PULSE_ON"
| "known_operation PULSE_OFF = PULSE_OFF"
| "known_operation LATCH_ON = LATCH_ON"
| "known_operation LATCH_OFF = LATCH_OFF"

fun forwarded_as :: "command \<Rightarrow> command" where
  "forwarded_as (Relay crob) = Relay (crob\<lparr>opType := known_operation (opType crob)\<rparr>)"
| "forwarded_as (AnalogOutputInt16 v) = AnalogOutputInt16 v"
| "forwarded_as (AnalogOutputInt32 v) = AnalogOutputInt32 v"
| "forwarded_as (AnalogOutputFloat32 v) = AnalogOutputFloat32 v"
| "forwarded_as (AnalogOutputDouble64 v) = AnalogOutputDouble64 v"

text \<open>A command whose operation code is one of the five the bridge forwards.\<close>

fun standard :: "command \<Rightarrow> bool" where
  "standard (Relay crob) = (\<forall>code. opType crob \<noteq> Other_operation code)"
| "standard (AnalogOutputInt16 v) = True"
| "standard (AnalogOutputInt32 v) = True"
| "standard (AnalogOutputFloat32 v) = True"
| "standard (AnalogOutputDouble64 v) = True"

lemma decode_toCrobOperation: "decode_operation (toCrobOperation op) = known_operation op"
  by (cases op) simp_all

lemma forwarded_standard: "standard cmd \<Longrightarrow> forwarded_as cmd = cmd"
proof (cases cmd)
  case (Relay crob)
  moreover assume "standard cmd"
  ultimately have "known_operation (opType crob) = opType crob" by (cases "opType crob") auto
  with Relay show ?thesis by simp
qed simp_all

lemma undouble_of_int: "\<bar>i\<bar> \<le> 2 ^ 53 \<Longrightarrow> undouble (double_of_int i) = i"
  by (simp add: dvalue_double_of_int)

lemma sint_small: "LENGTH('a) \<le> 32 \<Longrightarrow> \<bar>sint (v :: 'a::len word)\<bar> \<le> 2 ^ 53"
proof -
  assume len: "LENGTH('a) \<le> 32"
  have "\<bar>sint v\<bar> \<le> 2 ^ (LENGTH('a) - 1)"
    using sint_ge [of v] sint_lt [of v] by linarith
  also have "\<dots> \<le> (2 :: int) ^ 53" using len by (intro power_increasing) auto
  finally show ?thesis .
qed

lemma unfloat_of_float: "unfloat (double_of_float v) = v"
  by (cases v) simp_all

lemma empty_request_fields [simp]:
  "command_type empty_CommandRequest = COMMAND_TYPE_UNSPECIFIED"
  "payload empty_CommandRequest = None" "command_id empty_CommandRequest = 0"
  by (simp_all add: empty_CommandRequest_def)

lemma ucast_back [simp]: "(ucast (ucast (x :: u16) :: u32) :: u16) = x"
  "(ucast (ucast (y :: u8) :: u32) :: u8) = y"
  by (auto intro!: bit_word_eqI simp: bit_unsigned_iff)

lemma decode_request_forwarded: "decode_request (request_of cmd index) = Some (index, forwarded_as cmd)"
proof (cases cmd)
  case (Relay crob)
  then show ?thesis
    by (simp add: decode_request_def crob_request_def crob_payload_def decode_toCrobOperation)
next
  case (AnalogOutputInt16 v)
  then show ?thesis using undouble_of_int [OF sint_small, of v]
    by (simp add: decode_request_def analog_request_def)
next
  case (AnalogOutputInt32 v)
  then show ?thesis using undouble_of_int [OF sint_small, of v]
    by (simp add: decode_request_def analog_request_def)
qed (simp_all add: decode_request_def analog_request_def unfloat_of_float)

lemma decode_request_of:
  "standard cmd \<Longrightarrow> decode_request (request_of cmd index) = Some (index, cmd)"
  by (simp add: decode_request_forwarded forwarded_standard)

text \<open>
  C36: Forwarding loses nothing: every \<open>Operate\<close>, for every kind of command, every 16-bit index and
  every value, calls \<open>dispatch\<close> exactly once, with a request from which the client reads exactly
  that point and that command; of a relay operation outside the five the bridge knows it reads
  NUL. The status is the one \<open>dispatch\<close> returns, or DOWNSTREAM_FAIL when it throws.
\<close>

theorem request_determines_command:
  "\<exists>request. decode_request request = Some (index, forwarded_as cmd) \<and>
     (\<forall>send d. Operate send cmd index d =
        (case send request d of
           (Throw x, d') \<Rightarrow> (DOWNSTREAM_FAIL, d') | (Ret status, d') \<Rightarrow> (status, d')))"
  by (intro exI [of _ "request_of cmd index"])
    (simp add: decode_request_forwarded Operate_guarded guarded_def)

text \<open>The requests that reach a \<open>dispatch\<close> which keeps them all and always answers LOCAL.\<close>

theorem request_determines_command_witness:
  "\<exists>request. Operate (\<lambda>r log. (Ret LOCAL :: (unit, CommandStatus) outcome, log @ [r]))
       (AnalogOutputInt16 (-7)) 300 [] = (LOCAL, [request]) \<and>
     decode_request request = Some (300, AnalogOutputInt16 (-7))"
proof -
  let ?cmd = "AnalogOutputInt16 (-7)"
  obtain request where r: "decode_request request = Some (300, forwarded_as ?cmd)"
    and all: "\<And>(send :: (unit, CommandRequest list) dispatch_fun) d. Operate send ?cmd 300 d =
      (case send request d of (Throw x, d') \<Rightarrow> (DOWNSTREAM_FAIL, d') | (Ret status, d') \<Rightarrow> (status, d'))"
    using request_determines_command by blast
  from r show ?thesis unfolding all by simp
qed

section \<open>The handler on a dispatcher\<close>

text \<open>
  What the handler asks of a dispatcher: a command made in a good state returns a status
  instead of throwing, and leaves a good state.
\<close>

locale command_sink =
  fixes send :: "CommandRequest \<Rightarrow> 'd \<Rightarrow> ('x, CommandStatus) outcome \<times> 'd"
    and ready :: "'d \<Rightarrow> bool"
    and status :: "CommandRequest \<Rightarrow> 'd \<Rightarrow> CommandStatus"
  assumes returns: "ready d \<Longrightarrow> fst (send r d) = Ret (status r d)"
    and stays_ready: "ready d \<Longrightarrow> ready (snd (send r d))"
begin

lemma operate_status: "ready d \<Longrightarrow> fst (Operate send cmd index d) = status (request_of cmd index) d"
  using returns [of d "request_of cmd index"]
  by (cases "send (request_of cmd index) d") (simp add: Operate_guarded guarded_def)

lemma operate_state: "snd (Operate send cmd index d) = snd (send (request_of cmd index) d)"
  by (simp add: Operate_guarded guarded_def split: prod.split outcome.split)

lemma operate_ready: "ready d \<Longrightarrow> ready (snd (Operate send cmd index d))"
  by (simp add: operate_state stays_ready)

end

text \<open>
  The dispatcher with its count of calls: a call is made with the next number. The environment
  of the \<open>n\<close>-th call is \<open>envs n\<close>.
\<close>

definition send_command ::
  "(call \<Rightarrow> dispatch_env) \<Rightarrow> CommandRequest \<Rightarrow> call \<times> dispatcher
     \<Rightarrow> (dispatch_exception, CommandStatus) outcome \<times> call \<times> dispatcher" where
  "send_command envs r cd =
     (case cd of (c, d) \<Rightarrow>
        (case dispatch (envs c) c r d of (result, r', d') \<Rightarrow> (result, Suc c, d')))"

text \<open>No command is in progress and every call number is still to be used.\<close>

definition quiet :: "call \<times> dispatcher \<Rightarrow> bool" where
  "quiet cd \<longleftrightarrow>
     pending (snd cd) = Map.empty \<and> (\<forall>c \<ge> fst cd. results (snd cd) c = None)"

lemma send_command_quiet:
  assumes "quiet cd"
  shows "fst (send_command envs r cd) = Ret (dispatch_status (envs (fst cd)) (snd cd))"
    and "quiet (snd (send_command envs r cd))"
proof -
  obtain c d where cd: "cd = (c, d)" by (cases cd)
  have fresh: "fresh_call c d" using assms by (simp add: quiet_def cd fresh_call_def)
  obtain d' where d': "dispatch (envs c) c r d =
        (Ret (dispatch_status (envs c) d), r\<lparr>command_id := next_id d\<rparr>, d')"
    "pending d' (next_id d) = None"
    "\<forall>i. i \<noteq> next_id d \<longrightarrow> pending d' i \<noteq> None \<longrightarrow> pending d i \<noteq> None"
    "\<forall>c'. c' \<noteq> c \<longrightarrow> c' \<notin> ran (pending d) \<longrightarrow> results d' c' = results d c'"
    using dispatch_outcome [OF fresh] by blast
  then show "fst (send_command envs r cd) = Ret (dispatch_status (envs (fst cd)) (snd cd))"
    by (simp add: send_command_def cd)
  have "pending d' i = None" for i
    using d'(2,3) assms by (cases "i = next_id d") (auto simp: quiet_def cd)
  moreover have "results d' c' = None" if "Suc c \<le> c'" for c'
    using d'(4) assms that by (simp add: quiet_def cd)
  ultimately show "quiet (snd (send_command envs r cd))"
    using d'(1) by (auto simp: send_command_def cd quiet_def)
qed

interpretation dispatcher_sink:
  command_sink "send_command envs" quiet "\<lambda>r cd. dispatch_status (envs (fst cd)) (snd cd)" for envs
  by unfold_locales (fact send_command_quiet)+

text \<open>
  What the SCADA is told: on a dispatcher with no command in progress, an \<open>Operate\<close> answers
  NOT_SUPPORTED without a connected client, DOWNSTREAM_FAIL when the client cannot be written to,
  the client's own first answer when it comes in time and TIMEOUT otherwise, and leaves the
  dispatcher ready for the next command.
\<close>

theorem operate_reports:
  assumes "quiet (c, d)"
  shows "fst (Operate (send_command envs) cmd index (c, d)) =
           (if active_writer d = None then NOT_SUPPORTED
            else if env_write (envs c) \<noteq> Wrote True then DOWNSTREAM_FAIL
            else case map_of (env_answers (envs c)) (next_id d) of
                   None \<Rightarrow> TIMEOUT | Some status \<Rightarrow> status) \<and>
         quiet (snd (Operate (send_command envs) cmd index (c, d)))"
  using dispatcher_sink.operate_status [OF assms] dispatcher_sink.operate_ready [OF assms]
  by (simp add: dispatch_status_def)

theorem operate_reports_witness:
  "fst (Operate (send_command (\<lambda>c. \<lparr>env_write = Write_threw, env_answers = []\<rparr>))
      (AnalogOutputDouble64 NaN) 3 (0, snd (registerWriter 5 new_dispatcher))) = DOWNSTREAM_FAIL"
proof -
  have "quiet (0, snd (registerWriter 5 new_dispatcher))"
    by (simp add: quiet_def registerWriter_def new_dispatcher_def)
  from operate_reports [OF this, of "\<lambda>c. \<lparr>env_write = Write_threw, env_answers = []\<rparr>"
      "AnalogOutputDouble64 NaN" 3]
  show ?thesis by (simp add: registerWriter_def del: Operate.simps)
qed

text \<open>
  Nothing that happens inside \<open>dispatch\<close> escapes into the protocol stack: an \<open>Operate\<close>
  always returns a status, DOWNSTREAM_FAIL when \<open>dispatch\<close> throws and its own status otherwise;
  a \<open>Select\<close> returns SUCCESS exactly in select-before-operate mode, NOT_SUPPORTED otherwise, and
  reaches no client.
\<close>

theorem handler_statuses:
  "fst (Operate send cmd index d) =
     (case fst (send (request_of cmd index) d) of Throw x \<Rightarrow> DOWNSTREAM_FAIL | Ret status \<Rightarrow> status) \<and>
   snd (Operate send cmd index d) = snd (send (request_of cmd index) d) \<and>
   Select mode cmd index = (if mode = SelectBeforeOperate then SUCCESS else NOT_SUPPORTED)"
proof -
  have "Select mode cmd index = (if mode = SelectBeforeOperate then SUCCESS else NOT_SUPPORTED)"
    by (cases cmd; cases mode) (simp_all add: select_overloads)
  then show ?thesis
    by (simp add: Operate_guarded guarded_def split: prod.split outcome.split)
qed

end
