(* ===== verification/Outstation.thy ===== *)
theory Outstation
  imports PointDatabase CommandHandler
begin

text \<open>
  \<open>src/src/bridge/DataModel.hpp\<close> and the class \<open>OutstationManager\<close> of
  \<open>src/src/dnp3/OutstationManager.cpp\<close>: start and shutdown of the DNP3 stack, and the updates
  with their event decisions. What opendnp3 receives is recorded: the stack configuration and
  the sequence of measurements applied, each with its \<open>EventMode\<close>.
\<close>

section \<open>Data model\<close>

datatype Quality = Good | Uncertain | Bad | Restart

record AnalogUpdate =
  au_index :: u16
  au_value :: double
  au_quality :: Quality

record BinaryUpdate =
  bu_index :: u16
  bu_value :: bool
  bu_quality :: Quality

datatype PointUpdate = Analog_update AnalogUpdate | Binary_update BinaryUpdate

section \<open>State\<close>

text \<open>The two flag bits of opendnp3's \<open>AnalogQuality\<close> that the code names.\<close>

record AnalogQuality =
  ONLINE :: u8
  RESTART :: u8

datatype EventMode = Force | Suppress

datatype measurement =
  Analog double u8 u16 EventMode
| Binary bool u8 u16 EventMode

record 'v PointState =
  last_evented :: 'v
  seen :: bool

definition zero_double :: double where
  "zero_double = Fin False 0"

definition fresh_analog_state :: "double PointState" where
  "fresh_analog_state = \<lparr>last_evented = zero_double, seen = False\<rparr>"

definition fresh_binary_state :: "bool PointState" where
  "fresh_binary_state = \<lparr>last_evented = False, seen = False\<rparr>"

record OutstationStackConfig =
  listen_host :: string
  listen_port :: u16
  database :: DatabaseConfig
  eventBufferConfig :: EventBufferConfig
  allowUnsolicited :: bool
  unsolClassMask :: ClassField
  LocalAddr :: u16
  RemoteAddr :: u16
  handler_mode :: CommandMode

record OutstationManager =
  om_cfg :: AppConfig
  manager :: bool
  channel :: bool
  outstation :: "OutstationStackConfig option"
  connected :: bool
  analog_deadband :: "u16 \<rightharpoonup> double"
  analog_state :: "u16 \<rightharpoonup> double PointState"
  binary_state :: "u16 \<rightharpoonup> bool PointState"
  applied :: "measurement list"

definition new_OutstationManager :: "AppConfig \<Rightarrow> OutstationManager" where
  "new_OutstationManager cfg =
     \<lparr>om_cfg = cfg, manager = False, channel = False, outstation = None, connected = False,
      analog_deadband = Map.empty, analog_state = Map.empty, binary_state = Map.empty,
      applied = []\<rparr>"

section \<open>Start, shutdown, connection\<close>

definition command_mode_of :: "string \<Rightarrow> CommandMode" where
  "command_mode_of s =
     (if s = ''select_before_operate'' then SelectBeforeOperate else DirectOperate)"

definition stack_config :: "AppConfig \<Rightarrow> DatabaseConfig \<Rightarrow> OutstationStackConfig" where
  "stack_config cfg db =
     \<lparr>listen_host = dnp3_channel_host cfg, listen_port = dnp3_channel_port cfg,
      database = db, eventBufferConfig = event_buffer cfg,
      allowUnsolicited = enabled (unsolicited cfg),
      unsolClassMask = buildClassMask (class_mask (unsolicited cfg)),
      LocalAddr = dnp3_local_address cfg, RemoteAddr = dnp3_remote_address cfg,
      handler_mode = command_mode_of (command_mode cfg)\<rparr>"

definition start_database :: "library_defaults \<Rightarrow> AppConfig \<Rightarrow> DatabaseConfig" where
  "start_database lib cfg =
     (if point_database_empty (point_database cfg)
      then configureDefaultDatabase lib (fresh_database lib)
      else configureDatabaseFromConfig lib (fresh_database lib) (point_database cfg))"

definition start :: "library_defaults \<Rightarrow> OutstationManager \<Rightarrow> OutstationManager" where
  "start lib m =
     (let db_config = start_database lib (om_cfg m) in
      m\<lparr>manager := True, channel := True,
        analog_deadband := map_of (map (\<lambda>(index, pt). (index, a_deadband pt)) (db_analog_input db_config)),
        analog_state := Map.empty, binary_state := Map.empty,
        outstation := Some (stack_config (om_cfg m) db_config)\<rparr>)"

text \<open>
  \<open>start\<close> is what the function does when opendnp3 accepts the endpoint and the outstation. Both
  calls may throw (an endpoint that cannot be bound, for instance); nothing catches the exception,
  and the members assigned before it keep their values.
\<close>

record 'x stack_library =
  AddTCPServer :: "string \<Rightarrow> u16 \<Rightarrow> 'x option"
  AddOutstation :: "OutstationStackConfig \<Rightarrow> 'x option"

definition start_stack ::
  "'x stack_library \<Rightarrow> library_defaults \<Rightarrow> OutstationManager
     \<Rightarrow> ('x, unit) outcome \<times> OutstationManager" where
  "start_stack net lib m =
     (case AddTCPServer net (dnp3_channel_host (om_cfg m)) (dnp3_channel_port (om_cfg m)) of
        Some e \<Rightarrow> (Throw e, m\<lparr>manager := True\<rparr>)
      | None \<Rightarrow>
          let db_config = start_database lib (om_cfg m);
              stack_cfg = stack_config (om_cfg m) db_config;
              m1 = m\<lparr>manager := True, channel := True,
                analog_deadband := map_of (map (\<lambda>(index, pt). (index, a_deadband pt)) (db_analog_input db_config)),
                analog_state := Map.empty, binary_state := Map.empty\<rparr>
          in case AddOutstation net stack_cfg of
               Some e \<Rightarrow> (Throw e, m1)
             | None \<Rightarrow> (Ret (), m1\<lparr>outstation := Some stack_cfg\<rparr>))"

lemma start_stack_cases:
  "start_stack net lib m = (result, m') \<Longrightarrow>
     (case result of
        Ret u \<Rightarrow> m' = start lib m
          \<and> AddTCPServer net (dnp3_channel_host (om_cfg m)) (dnp3_channel_port (om_cfg m)) = None
          \<and> AddOutstation net (stack_config (om_cfg m) (start_database lib (om_cfg m))) = None
      | Throw e \<Rightarrow> outstation m' = outstation m
          \<and> (AddTCPServer net (dnp3_channel_host (om_cfg m)) (dnp3_channel_port (om_cfg m)) = Some e
             \<or> AddTCPServer net (dnp3_channel_host (om_cfg m)) (dnp3_channel_port (om_cfg m)) = None
               \<and> AddOutstation net (stack_config (om_cfg m) (start_database lib (om_cfg m))) = Some e))"
  by (auto simp: start_stack_def start_def Let_def split: option.splits)

text \<open>
  \<open>shutdown\<close> in its two parts: while \<open>DNP3Manager::Shutdown\<close> runs in the second, opendnp3's threads may
  still call back, and the references of the first are gone already.
\<close>

definition release_outstation :: "OutstationManager \<Rightarrow> OutstationManager" where
  "release_outstation m = m\<lparr>connected := False, outstation := None, channel := False\<rparr>"

definition stop_manager :: "OutstationManager \<Rightarrow> OutstationManager" where
  "stop_manager m = (if manager m then m\<lparr>manager := False\<rparr> else m)"

definition shutdown :: "OutstationManager \<Rightarrow> OutstationManager" where
  "shutdown m = stop_manager (release_outstation m)"

lemma shutdown_fields:
  "shutdown m = m\<lparr>connected := False, outstation := None, channel := False, manager := False\<rparr>"
  by (cases m) (simp add: shutdown_def stop_manager_def release_outstation_def)

lemmas shutdown_parts = release_outstation_def stop_manager_def

datatype ChannelState = CLOSED | OPENING | OPEN | SHUTDOWN

definition OnStateChange :: "ChannelState \<Rightarrow> OutstationManager \<Rightarrow> OutstationManager" where
  "OnStateChange st m = m\<lparr>connected := (st = OPEN)\<rparr>"

definition isConnected :: "OutstationManager \<Rightarrow> bool" where
  "isConnected m = connected m"

section \<open>Updates\<close>

fun toFlagBits :: "AnalogQuality \<Rightarrow> Quality \<Rightarrow> u8" where
  "toFlagBits lib Good = ONLINE lib"
| "toFlagBits lib Uncertain = ONLINE lib"
| "toFlagBits lib Bad = 0"
| "toFlagBits lib Restart = or (ONLINE lib) (RESTART lib)"

definition deadband_of :: "u16 \<Rightarrow> OutstationManager \<Rightarrow> double" where
  "deadband_of index m = (case analog_deadband m index of Some d \<Rightarrow> d | None \<Rightarrow> zero_double)"

definition analog_event :: "double \<Rightarrow> double PointState \<Rightarrow> double \<Rightarrow> bool" where
  "analog_event d st v \<longleftrightarrow>
     \<not> seen st \<or> \<not> isfinite v \<or> \<not> isfinite (last_evented st) \<or> abs (v - last_evented st) > d"

definition binary_event :: "bool PointState \<Rightarrow> bool \<Rightarrow> bool" where
  "binary_event st v \<longleftrightarrow> \<not> seen st \<or> v \<noteq> last_evented st"

definition event_mode :: "bool \<Rightarrow> EventMode" where
  "event_mode is_event = (if is_event then Force else Suppress)"

definition next_state :: "bool \<Rightarrow> 'v \<Rightarrow> 'v PointState \<Rightarrow> 'v PointState" where
  "next_state is_event v st =
     (if is_event then st\<lparr>last_evented := v, seen := True\<rparr> else st\<lparr>seen := True\<rparr>)"

definition updateAnalog ::
  "AnalogQuality \<Rightarrow> u16 \<Rightarrow> double \<Rightarrow> Quality \<Rightarrow> OutstationManager \<Rightarrow> OutstationManager" where
  "updateAnalog lib index v q m =
     (if outstation m = None then m
      else
        let st = (case analog_state m index of Some st \<Rightarrow> st | None \<Rightarrow> fresh_analog_state);
            is_event = analog_event (deadband_of index m) st v
        in m\<lparr>applied := applied m @ [Analog v (toFlagBits lib q) index (event_mode is_event)],
             analog_state := (analog_state m)(index \<mapsto> next_state is_event v st)\<rparr>)"

definition updateBinary ::
  "AnalogQuality \<Rightarrow> u16 \<Rightarrow> bool \<Rightarrow> Quality \<Rightarrow> OutstationManager \<Rightarrow> OutstationManager" where
  "updateBinary lib index v q m =
     (if outstation m = None then m
      else
        let st = (case binary_state m index of Some st \<Rightarrow> st | None \<Rightarrow> fresh_binary_state);
            is_event = binary_event st v
        in m\<lparr>applied := applied m @ [Binary v (toFlagBits lib q) index (event_mode is_event)],
             binary_state := (binary_state m)(index \<mapsto> next_state is_event v st)\<rparr>)"

text \<open>The visitor of \<open>Bridge::flushLoop\<close>.\<close>

fun deliver :: "AnalogQuality \<Rightarrow> PointUpdate \<Rightarrow> OutstationManager \<Rightarrow> OutstationManager" where
  "deliver lib (Analog_update u) m = updateAnalog lib (au_index u) (au_value u) (au_quality u) m"
| "deliver lib (Binary_update u) m = updateBinary lib (bu_index u) (bu_value u) (bu_quality u) m"

definition deliver_all ::
  "AnalogQuality \<Rightarrow> PointUpdate list \<Rightarrow> OutstationManager \<Rightarrow> OutstationManager" where
  "deliver_all lib us m = fold (deliver lib) us m"

section \<open>Points are independent\<close>

text \<open>
  Updates of many points that reach one object, of which each keeps a state of its own: an
  update changes the state of its own point, by \<open>advance\<close>, and no other.
\<close>

locale keyed_updates =
  fixes run :: "'u \<Rightarrow> 'm \<Rightarrow> 'm"
    and key_value :: "'u \<Rightarrow> ('k \<times> 'v) option"
    and view :: "'k \<Rightarrow> 'm \<Rightarrow> 's"
    and advance :: "'k \<Rightarrow> 'v \<Rightarrow> 's \<Rightarrow> 's"
    and ok :: "'m \<Rightarrow> bool"
  assumes run_ok: "ok m \<Longrightarrow> ok (run u m)"
    and view_run: "ok m \<Longrightarrow> view key (run u m) =
      (case key_value u of
         None \<Rightarrow> view key m
       | Some (key', val) \<Rightarrow> if key' = key then advance key val (view key m) else view key m)"
begin

definition own_values :: "'k \<Rightarrow> 'u list \<Rightarrow> 'v list" where
  "own_values key us = map snd (filter (\<lambda>kv. fst kv = key) (List.map_filter key_value us))"

lemma own_values_Nil [simp]: "own_values key [] = []"
  by (simp add: own_values_def List.map_filter_def)

lemma own_values_Cons:
  "own_values key (u # us) =
     (case key_value u of
        None \<Rightarrow> own_values key us
      | Some (key', val) \<Rightarrow> if key' = key then val # own_values key us else own_values key us)"
  by (auto simp: own_values_def List.map_filter_def split: option.split prod.split)

lemma view_all:
  "ok m \<Longrightarrow> view key (fold run us m) = fold (advance key) (own_values key us) (view key m)"
  by (induction us arbitrary: m)
    (auto simp: own_values_Cons view_run run_ok split: option.split prod.split)

lemma ok_all: "ok m \<Longrightarrow> ok (fold run us m)"
  by (induction us arbitrary: m) (auto simp: run_ok)

end

fun analog_on :: "u16 \<Rightarrow> measurement \<Rightarrow> bool" where
  "analog_on index (Analog v flags i md) = (i = index)"
| "analog_on index (Binary v flags i md) = False"

fun binary_on :: "u16 \<Rightarrow> measurement \<Rightarrow> bool" where
  "binary_on index (Binary v flags i md) = (i = index)"
| "binary_on index (Analog v flags i md) = False"

fun analog_part :: "PointUpdate \<Rightarrow> (u16 \<times> double \<times> Quality) option" where
  "analog_part (Analog_update u) = Some (au_index u, au_value u, au_quality u)"
| "analog_part (Binary_update u) = None"

fun binary_part :: "PointUpdate \<Rightarrow> (u16 \<times> bool \<times> Quality) option" where
  "binary_part (Binary_update u) = Some (bu_index u, bu_value u, bu_quality u)"
| "binary_part (Analog_update u) = None"

definition analog_state_of :: "u16 \<Rightarrow> OutstationManager \<Rightarrow> double PointState" where
  "analog_state_of index m =
     (case analog_state m index of Some st \<Rightarrow> st | None \<Rightarrow> fresh_analog_state)"

definition binary_state_of :: "u16 \<Rightarrow> OutstationManager \<Rightarrow> bool PointState" where
  "binary_state_of index m =
     (case binary_state m index of Some st \<Rightarrow> st | None \<Rightarrow> fresh_binary_state)"

text \<open>One point: its state and what was applied to it.\<close>

fun analog_advance ::
  "AnalogQuality \<Rightarrow> double \<Rightarrow> u16 \<Rightarrow> double \<times> Quality
     \<Rightarrow> double PointState \<times> measurement list \<Rightarrow> double PointState \<times> measurement list" where
  "analog_advance lib d index (v, q) (st, log) =
     (next_state (analog_event d st v) v st,
      log @ [Analog v (toFlagBits lib q) index (event_mode (analog_event d st v))])"

fun binary_advance ::
  "AnalogQuality \<Rightarrow> u16 \<Rightarrow> bool \<times> Quality
     \<Rightarrow> bool PointState \<times> measurement list \<Rightarrow> bool PointState \<times> measurement list" where
  "binary_advance lib index (v, q) (st, log) =
     (next_state (binary_event st v) v st,
      log @ [Binary v (toFlagBits lib q) index (event_mode (binary_event st v))])"

definition analog_view :: "u16 \<Rightarrow> OutstationManager \<Rightarrow> double PointState \<times> measurement list" where
  "analog_view index m = (analog_state_of index m, filter (analog_on index) (applied m))"

definition binary_view :: "u16 \<Rightarrow> OutstationManager \<Rightarrow> bool PointState \<times> measurement list" where
  "binary_view index m = (binary_state_of index m, filter (binary_on index) (applied m))"

definition running_with :: "(u16 \<Rightarrow> double) \<Rightarrow> OutstationManager \<Rightarrow> bool" where
  "running_with D m \<longleftrightarrow> outstation m \<noteq> None \<and> (\<forall>index. deadband_of index m = D index)"

lemma running_with_deliver [simp]: "running_with D m \<Longrightarrow> running_with D (deliver lib u m)"
  by (cases u)
    (simp_all add: running_with_def updateAnalog_def updateBinary_def deadband_of_def Let_def)

lemma analog_view_deliver:
  assumes "running_with D m"
  shows "analog_view index (deliver lib u m) =
     (case analog_part u of
        None \<Rightarrow> analog_view index m
      | Some (i, vq) \<Rightarrow>
          if i = index then analog_advance lib (D index) index vq (analog_view index m)
          else analog_view index m)"
  using assms
  by (cases u)
    (auto simp: running_with_def updateAnalog_def updateBinary_def analog_view_def
      analog_state_of_def Let_def)

lemma binary_view_deliver:
  assumes "running_with D m"
  shows "binary_view index (deliver lib u m) =
     (case binary_part u of
        None \<Rightarrow> binary_view index m
      | Some (i, vq) \<Rightarrow>
          if i = index then binary_advance lib index vq (binary_view index m)
          else binary_view index m)"
  using assms
  by (cases u)
    (auto simp: running_with_def updateAnalog_def updateBinary_def binary_view_def
      binary_state_of_def Let_def)

interpretation analogs: keyed_updates "deliver lib" analog_part analog_view
    "\<lambda>index. analog_advance lib (D index) index" "running_with D" for lib D
  by unfold_locales (simp_all add: analog_view_deliver)

interpretation binaries: keyed_updates "deliver lib" binary_part binary_view
    "\<lambda>index. binary_advance lib index" "running_with D" for lib D
  by unfold_locales (simp_all add: binary_view_deliver)

section \<open>The measurements of one point\<close>

fun analog_values :: "u16 \<Rightarrow> PointUpdate list \<Rightarrow> (double \<times> Quality) list" where
  "analog_values index [] = []"
| "analog_values index (Analog_update u # us) =
     (if au_index u = index then (au_value u, au_quality u) # analog_values index us
      else analog_values index us)"
| "analog_values index (Binary_update u # us) = analog_values index us"

fun binary_values :: "u16 \<Rightarrow> PointUpdate list \<Rightarrow> (bool \<times> Quality) list" where
  "binary_values index [] = []"
| "binary_values index (Binary_update u # us) =
     (if bu_index u = index then (bu_value u, bu_quality u) # binary_values index us
      else binary_values index us)"
| "binary_values index (Analog_update u # us) = binary_values index us"

text \<open>What one point sends, given its deadband and the updates it receives.\<close>

fun analog_history ::
  "AnalogQuality \<Rightarrow> double \<Rightarrow> u16 \<Rightarrow> (double \<times> Quality) list \<Rightarrow> double PointState
     \<Rightarrow> measurement list" where
  "analog_history lib d index [] st = []"
| "analog_history lib d index ((v, q) # vs) st =
     Analog v (toFlagBits lib q) index (event_mode (analog_event d st v)) #
     analog_history lib d index vs (next_state (analog_event d st v) v st)"

fun binary_history ::
  "AnalogQuality \<Rightarrow> u16 \<Rightarrow> (bool \<times> Quality) list \<Rightarrow> bool PointState \<Rightarrow> measurement list" where
  "binary_history lib index [] st = []"
| "binary_history lib index ((v, q) # vs) st =
     Binary v (toFlagBits lib q) index (event_mode (binary_event st v)) #
     binary_history lib index vs (next_state (binary_event st v) v st)"

lemma own_analog_values: "analogs.own_values index us = analog_values index us"
  by (induction index us rule: analog_values.induct) (simp_all add: analogs.own_values_Cons)

lemma own_binary_values: "binaries.own_values index us = binary_values index us"
  by (induction index us rule: binary_values.induct) (simp_all add: binaries.own_values_Cons)

lemma fold_analog_advance:
  "snd (fold (analog_advance lib d index) vs (st, log)) = log @ analog_history lib d index vs st"
  by (induction lib d index vs st arbitrary: log rule: analog_history.induct) simp_all

lemma fold_binary_advance:
  "snd (fold (binary_advance lib index) vs (st, log)) = log @ binary_history lib index vs st"
  by (induction lib index vs st arbitrary: log rule: binary_history.induct) simp_all

lemma running_self: "outstation m \<noteq> None \<Longrightarrow> running_with (\<lambda>index. deadband_of index m) m"
  by (simp add: running_with_def)

lemma analog_log_all:
  assumes "outstation m \<noteq> None"
  shows "filter (analog_on index) (applied (deliver_all lib us m)) =
     filter (analog_on index) (applied m) @
     analog_history lib (deadband_of index m) index (analog_values index us) (analog_state_of index m)"
  using analogs.view_all [OF running_self [OF assms], of index lib us]
    fold_analog_advance [of lib "deadband_of index m" index "analog_values index us"
      "analog_state_of index m" "filter (analog_on index) (applied m)"]
  by (simp add: analog_view_def own_analog_values deliver_all_def prod_eq_iff)

lemma binary_log_all:
  assumes "outstation m \<noteq> None"
  shows "filter (binary_on index) (applied (deliver_all lib us m)) =
     filter (binary_on index) (applied m) @
     binary_history lib index (binary_values index us) (binary_state_of index m)"
  using binaries.view_all [OF running_self [OF assms], of index lib us]
    fold_binary_advance [of lib index "binary_values index us"
      "binary_state_of index m" "filter (binary_on index) (applied m)"]
  by (simp add: binary_view_def own_binary_values deliver_all_def prod_eq_iff)

text \<open>
  C15: Points do not influence each other: what a started outstation applies to one point is
  computed from the updates of that point alone, in their order, with the point's own deadband
  and its own last evented value; the updates of other points and of the other kind, however
  they are interleaved, make no difference.
\<close>

theorem points_are_independent:
  assumes "outstation m \<noteq> None"
  shows "filter (analog_on index) (applied (deliver_all lib us m)) =
           filter (analog_on index) (applied m) @
           analog_history lib (deadband_of index m) index (analog_values index us)
             (analog_state_of index m) \<and>
         filter (binary_on index) (applied (deliver_all lib us m)) =
           filter (binary_on index) (applied m) @
           binary_history lib index (binary_values index us) (binary_state_of index m)"
  using analog_log_all [OF assms] binary_log_all [OF assms] by simp

definition sample_manager :: OutstationManager where
  "sample_manager = start sample_defaults (new_OutstationManager (default_AppConfig
     \<lparr>point_database := default_PointDatabaseConfig
        \<lparr>analog_input := [default_PointConfig\<lparr>pc_end := 3, deadband := Some (Fin False 10)\<rparr>]\<rparr>\<rparr>))"

definition sample_quality :: AnalogQuality where
  "sample_quality = \<lparr>ONLINE = 1, RESTART = 2\<rparr>"

lemma sample_manager_started: "outstation sample_manager \<noteq> None"
  by (simp add: sample_manager_def start_def Let_def)

lemma sample_manager_fresh:
  "applied sample_manager = []" "analog_state sample_manager = Map.empty"
  "binary_state sample_manager = Map.empty"
  by (simp_all add: sample_manager_def start_def Let_def new_OutstationManager_def)

lemma sample_manager_deadband: "deadband_of 2 sample_manager = Fin False 10"
  by code_simp

definition sample_updates :: "PointUpdate list" where
  "sample_updates =
     [Analog_update \<lparr>au_index = 2, au_value = Fin False 100, au_quality = Good\<rparr>,
      Analog_update \<lparr>au_index = 9, au_value = Fin False 500, au_quality = Bad\<rparr>,
      Binary_update \<lparr>bu_index = 2, bu_value = True, bu_quality = Good\<rparr>,
      Analog_update \<lparr>au_index = 2, au_value = Fin False 110, au_quality = Bad\<rparr>,
      Analog_update \<lparr>au_index = 2, au_value = Fin False 111, au_quality = Bad\<rparr>]"

theorem points_are_independent_witness:
  "filter (analog_on 2) (applied (deliver_all sample_quality sample_updates sample_manager)) =
     [Analog (Fin False 100) 1 2 Force, Analog (Fin False 110) 0 2 Suppress,
      Analog (Fin False 111) 0 2 Force]"
proof -
  have "round_mag 10 = 10" "round_mag 11 = 11" by (simp_all add: round_mag_small)
  moreover have "10 < overflow_units" "11 < overflow_units"
    by (simp_all add: overflow_units_def)
  ultimately show ?thesis
    using points_are_independent [OF sample_manager_started, of 2 sample_quality sample_updates]
    by (simp add: sample_manager_fresh sample_manager_deadband sample_updates_def
        sample_quality_def analog_state_of_def fresh_analog_state_def event_mode_def
        analog_event_def next_state_def zero_double_def nearest_def)
qed

section \<open>Nothing is dropped or reordered\<close>

text \<open>A measurement without its event mode.\<close>

datatype content = Analog_content double u8 u16 | Binary_content bool u8 u16

fun content_of :: "measurement \<Rightarrow> content" where
  "content_of (Analog v flags i md) = Analog_content v flags i"
| "content_of (Binary v flags i md) = Binary_content v flags i"

fun expected_content :: "AnalogQuality \<Rightarrow> PointUpdate \<Rightarrow> content" where
  "expected_content lib (Analog_update u) =
     Analog_content (au_value u) (toFlagBits lib (au_quality u)) (au_index u)"
| "expected_content lib (Binary_update u) =
     Binary_content (bu_value u) (toFlagBits lib (bu_quality u)) (bu_index u)"

fun mode_of :: "measurement \<Rightarrow> EventMode" where
  "mode_of (Analog v flags i md) = md"
| "mode_of (Binary v flags i md) = md"

lemma deliver_running [simp]: "(outstation (deliver lib u m) = None) = (outstation m = None)"
  by (cases u) (simp_all add: updateAnalog_def updateBinary_def Let_def)

lemma deliver_content:
  "outstation m \<noteq> None \<Longrightarrow>
     map content_of (applied (deliver lib u m)) = map content_of (applied m) @ [expected_content lib u]"
  by (cases u) (simp_all add: updateAnalog_def updateBinary_def Let_def)

lemma deliver_all_Cons [simp]:
  "deliver_all lib [] m = m"
  "deliver_all lib (u # us) m = deliver_all lib us (deliver lib u m)"
  by (simp_all add: deliver_all_def)

lemma deliver_all_content:
  "outstation m \<noteq> None \<Longrightarrow>
     map content_of (applied (deliver_all lib us m)) =
       map content_of (applied m) @ map (expected_content lib) us"
proof (induction us arbitrary: m)
  case (Cons u us)
  then have "outstation (deliver lib u m) \<noteq> None" by (simp only: deliver_running) simp
  from Cons.IH [OF this] Cons.prems show ?case by (simp add: deliver_content del: not_None_eq)
qed simp

lemma deliver_stopped: "outstation m = None \<Longrightarrow> deliver lib u m = m"
  by (cases u) (simp_all add: updateAnalog_def updateBinary_def)

lemma deliver_all_stopped: "outstation m = None \<Longrightarrow> deliver_all lib us m = m"
  by (induction us) (simp_all add: deliver_stopped)

text \<open>
  Every update delivered to a started outstation is applied exactly once, in order, with its
  own value and the flags of its own quality, whether or not it is an event; before start and
  after shutdown updates change nothing.
\<close>

theorem updates_applied_in_order:
  "map content_of (applied (deliver_all lib us m)) =
     map content_of (applied m) @
     (if outstation m = None then [] else map (expected_content lib) us) \<and>
   (outstation m = None \<longrightarrow> deliver_all lib us m = m) \<and>
   deliver_all lib us (shutdown m) = shutdown m \<and>
   deliver_all lib us (new_OutstationManager cfg) = new_OutstationManager cfg"
  by (simp add: deliver_all_content deliver_all_stopped shutdown_fields new_OutstationManager_def)

theorem updates_applied_in_order_witness:
  "deliver_all sample_quality sample_updates (shutdown sample_manager) = shutdown sample_manager \<and>
   map content_of (applied (deliver_all sample_quality [sample_updates ! 1] sample_manager)) =
     [Analog_content (Fin False 500) 0 9]"
  using updates_applied_in_order [of sample_quality sample_updates sample_manager default_AppConfig]
    updates_applied_in_order [of sample_quality "[sample_updates ! 1]" sample_manager default_AppConfig]
  by (simp add: sample_manager_started sample_manager_fresh sample_updates_def)

section \<open>Quality never triggers an event\<close>

text \<open>Two updates that differ in nothing but the quality.\<close>

fun same_but_quality :: "PointUpdate \<Rightarrow> PointUpdate \<Rightarrow> bool" where
  "same_but_quality (Analog_update u) (Analog_update w) =
     (au_index u = au_index w \<and> au_value u = au_value w)"
| "same_but_quality (Binary_update u) (Binary_update w) =
     (bu_index u = bu_index w \<and> bu_value u = bu_value w)"
| "same_but_quality (Analog_update u) (Binary_update w) = False"
| "same_but_quality (Binary_update u) (Analog_update w) = False"

text \<open>Two managers that an observer of modes and states cannot tell apart.\<close>

definition same_modes :: "OutstationManager \<Rightarrow> OutstationManager \<Rightarrow> bool" where
  "same_modes m n \<longleftrightarrow>
     outstation m = outstation n \<and> analog_deadband m = analog_deadband n \<and>
     analog_state m = analog_state n \<and> binary_state m = binary_state n \<and>
     map mode_of (applied m) = map mode_of (applied n)"

lemma same_modes_deliver:
  assumes "same_modes m n" and "same_but_quality u w"
  shows "same_modes (deliver lib u m) (deliver lib w n)"
  using assms
  by (cases u; cases w)
    (simp_all add: same_modes_def updateAnalog_def updateBinary_def deadband_of_def Let_def)

lemma same_modes_all:
  "list_all2 same_but_quality us ws \<Longrightarrow> same_modes m n \<Longrightarrow>
     same_modes (deliver_all lib us m) (deliver_all lib ws n)"
  by (induction us ws arbitrary: m n rule: list_all2_induct) (simp_all add: same_modes_deliver)

text \<open>
  C8: Quality never decides about events (REQ-11): two sequences of updates that differ only in
  their qualities make the same events at the same places and leave the same event state; the
  flags go out with the measurements all the same.
\<close>

theorem quality_never_triggers:
  assumes "list_all2 same_but_quality us ws"
  shows "map mode_of (applied (deliver_all lib us m)) = map mode_of (applied (deliver_all lib ws m)) \<and>
         analog_state (deliver_all lib us m) = analog_state (deliver_all lib ws m) \<and>
         binary_state (deliver_all lib us m) = binary_state (deliver_all lib ws m)"
  using same_modes_all [OF assms, of m m lib] by (simp add: same_modes_def)

theorem quality_never_triggers_witness:
  "map mode_of (applied (deliver_all sample_quality
     [Binary_update \<lparr>bu_index = 0, bu_value = True, bu_quality = Good\<rparr>,
      Binary_update \<lparr>bu_index = 0, bu_value = True, bu_quality = Bad\<rparr>] sample_manager)) =
   map mode_of (applied (deliver_all sample_quality
     [Binary_update \<lparr>bu_index = 0, bu_value = True, bu_quality = Good\<rparr>,
      Binary_update \<lparr>bu_index = 0, bu_value = True, bu_quality = Good\<rparr>] sample_manager))"
  using quality_never_triggers [of
      "[Binary_update \<lparr>bu_index = 0, bu_value = True, bu_quality = Good\<rparr>,
        Binary_update \<lparr>bu_index = 0, bu_value = True, bu_quality = Bad\<rparr>]"
      "[Binary_update \<lparr>bu_index = 0, bu_value = True, bu_quality = Good\<rparr>,
        Binary_update \<lparr>bu_index = 0, bu_value = True, bu_quality = Good\<rparr>]"]
  by simp

section \<open>When a value is an event\<close>

text \<open>The value of the latest event among the measurements of a point.\<close>

fun event_value :: "measurement \<Rightarrow> double option" where
  "event_value (Analog v flags i Force) = Some v"
| "event_value (Analog v flags i Suppress) = None"
| "event_value (Binary v flags i md) = None"

definition last_event :: "measurement list \<Rightarrow> double option" where
  "last_event log = fold (\<lambda>x old. case event_value x of None \<Rightarrow> old | Some v \<Rightarrow> Some v) log None"

lemma last_event_snoc [simp]:
  "last_event (log @ [x]) = (case event_value x of None \<Rightarrow> last_event log | Some v \<Rightarrow> Some v)"
  by (simp add: last_event_def split: option.split)

lemma last_event_Nil [simp]: "last_event [] = None"
  by (simp add: last_event_def)

text \<open>The event rule of a deadband \<open>d\<close>, on the measurements already sent.\<close>

definition exceeds :: "double \<Rightarrow> double option \<Rightarrow> double \<Rightarrow> bool" where
  "exceeds d reference v =
     (case reference of
        None \<Rightarrow> True
      | Some e \<Rightarrow> \<not> isfinite v \<or> \<not> isfinite e \<or> abs (v - e) > d)"

text \<open>The point state is what the measurements sent so far say.\<close>

definition tracks :: "double PointState \<Rightarrow> measurement list \<Rightarrow> bool" where
  "tracks st log \<longleftrightarrow> (if seen st then last_event log = Some (last_evented st) else last_event log = None)"

lemma tracks_fresh: "tracks fresh_analog_state []"
  by (simp add: tracks_def fresh_analog_state_def)

lemma analog_event_exceeds: "tracks st log \<Longrightarrow> analog_event d st v = exceeds d (last_event log) v"
  by (auto simp: tracks_def analog_event_def exceeds_def split: if_splits)

lemma tracks_next:
  assumes "tracks st log"
  shows "tracks (next_state (analog_event d st v) v st)
     (log @ [Analog v flags i (event_mode (analog_event d st v))])"
  using assms by (auto simp: tracks_def next_state_def event_mode_def analog_event_def split: if_splits)

lemma length_analog_history [simp]: "length (analog_history lib d index vs st) = length vs"
  by (induction lib d index vs st rule: analog_history.induct) simp_all

lemma analog_history_rule:
  "tracks st log \<Longrightarrow> k < length vs \<Longrightarrow>
     analog_history lib d index vs st ! k =
       Analog (fst (vs ! k)) (toFlagBits lib (snd (vs ! k))) index
         (event_mode (exceeds d (last_event (log @ take k (analog_history lib d index vs st)))
           (fst (vs ! k))))"
proof (induction lib d index vs st arbitrary: log k rule: analog_history.induct)
  case (2 lib d index v q vs st)
  let ?x = "Analog v (toFlagBits lib q) index (event_mode (analog_event d st v))"
  let ?st = "next_state (analog_event d st v) v st"
  show ?case
  proof (cases k)
    case 0
    then show ?thesis using analog_event_exceeds [OF "2.prems"(1)] by simp
  next
    case (Suc j)
    have "tracks ?st (log @ [?x])" using "2.prems"(1) by (rule tracks_next)
    from "2.IH" [OF this, of j] "2.prems"(2) Suc show ?thesis by simp
  qed
qed simp

text \<open>A point of a freshly started outstation.\<close>

definition point_log ::
  "AnalogQuality \<Rightarrow> PointUpdate list \<Rightarrow> u16 \<Rightarrow> OutstationManager \<Rightarrow> measurement list" where
  "point_log lib us index m = filter (analog_on index) (applied (deliver_all lib us m))"

definition untouched :: "OutstationManager \<Rightarrow> bool" where
  "untouched m \<longleftrightarrow> outstation m \<noteq> None \<and> applied m = [] \<and> analog_state m = Map.empty"

lemma point_log_history:
  assumes "untouched m"
  shows "point_log lib us index m =
     analog_history lib (deadband_of index m) index (analog_values index us) fresh_analog_state"
  using analog_log_all [of m index lib us] assms
  by (simp add: untouched_def point_log_def analog_state_of_def)

text \<open>
  C1: The deadband rule (REQ-08): the k-th measurement of an analog point is an event exactly
  when it is the point's first, or it or the latest event value is not a finite number, or it
  differs from the latest event value by more than the point's deadband. The reference is the
  last value that was an event, not the last value applied, and a NaN does not silence the point.
\<close>

theorem event_iff_deadband_exceeded:
  assumes "untouched m" and "k < length (analog_values index us)"
    and "analog_values index us ! k = (v, q)"
  shows "point_log lib us index m ! k =
     Analog v (toFlagBits lib q) index
       (if exceeds (deadband_of index m) (last_event (take k (point_log lib us index m))) v
        then Force else Suppress)"
  using analog_history_rule [OF tracks_fresh, of k "analog_values index us" lib
      "deadband_of index m" index] assms
  by (simp add: point_log_history event_mode_def)

lemma sample_manager_untouched: "untouched sample_manager"
  by (simp add: untouched_def sample_manager_fresh sample_manager_started)

theorem event_iff_deadband_exceeded_witness:
  "point_log sample_quality
     [Analog_update \<lparr>au_index = 2, au_value = NaN, au_quality = Good\<rparr>,
      Analog_update \<lparr>au_index = 2, au_value = Fin False 3, au_quality = Restart\<rparr>] 2 sample_manager ! 1
   = Analog (Fin False 3) 3 2 Force"
  using event_iff_deadband_exceeded [OF sample_manager_untouched, of 1 2
      "[Analog_update \<lparr>au_index = 2, au_value = NaN, au_quality = Good\<rparr>,
        Analog_update \<lparr>au_index = 2, au_value = Fin False 3, au_quality = Restart\<rparr>]"
      "Fin False 3" Restart sample_quality]
  by (simp add: point_log_history [OF sample_manager_untouched] sample_quality_def
      event_mode_def analog_event_def fresh_analog_state_def exceeds_def next_state_def
      last_event_def)

lemma last_event_history:
  assumes "tracks st log" and "vs \<noteq> []"
  shows "\<exists>e. last_event (log @ analog_history lib d index vs st) = Some e \<and>
     (fst (last vs) = e \<or>
      isfinite (fst (last vs)) \<and> isfinite e \<and> \<not> abs (fst (last vs) - e) > d)"
  using assms
proof (induction lib d index vs st arbitrary: log rule: analog_history.induct)
  case (2 lib d index v q vs st)
  let ?x = "Analog v (toFlagBits lib q) index (event_mode (analog_event d st v))"
  let ?st = "next_state (analog_event d st v) v st"
  have tr: "tracks ?st (log @ [?x])" using "2.prems"(1) by (rule tracks_next)
  show ?case
  proof (cases "vs = []")
    case True
    then show ?thesis using "2.prems"(1)
      by (auto simp: event_mode_def analog_event_def tracks_def split: if_splits)
  next
    case False
    from "2.IH" [OF tr this] False show ?thesis by simp
  qed
qed simp

text \<open>
  C16: What the SCADA knows from events alone is never further from the current value than the
  deadband: once a point has been updated there is a latest event value, and it is the current
  value itself or a finite value within the deadband of it; with a deadband of zero the two are
  numerically equal, so every value change is an event.
\<close>

theorem events_follow_the_value:
  assumes "untouched m" and "analog_values index us \<noteq> []"
    and "fst (last (analog_values index us)) = v" and "isfinite (deadband_of index m)"
  shows "\<exists>e. last_event (point_log lib us index m) = Some e \<and>
     (v = e \<or>
      isfinite v \<and> isfinite e \<and>
      int (round_mag (nat (distance v e))) \<le> dvalue (deadband_of index m) \<and>
      (dvalue (deadband_of index m) = 0 \<longrightarrow> dvalue v = dvalue e))"
proof -
  let ?d = "deadband_of index m"
  obtain e where e: "last_event (point_log lib us index m) = Some e"
    and within: "v = e \<or> isfinite v \<and> isfinite e \<and> \<not> abs (v - e) > ?d"
    using last_event_history [OF tracks_fresh assms(2), of lib ?d index] assms(3)
    unfolding point_log_history [OF assms(1)] by auto
  have "int (round_mag (nat (distance v e))) \<le> dvalue ?d \<and> (dvalue ?d = 0 \<longrightarrow> dvalue v = dvalue e)"
    if "isfinite v" "isfinite e" "\<not> abs (v - e) > ?d"
    using below_threshold_within [OF that(1,2) assms(4) that(3)]
      above_zero_iff [OF that(1,2) assms(4)] that(3) by blast
  with e within show ?thesis by blast
qed

theorem events_follow_the_value_witness:
  "\<exists>e. last_event (point_log sample_quality sample_updates 2 sample_manager) = Some e \<and>
     (Fin False 111 = e \<or> isfinite e)"
proof -
  have vals: "analog_values 2 sample_updates \<noteq> []"
    "fst (last (analog_values 2 sample_updates)) = Fin False 111"
    by (simp_all add: sample_updates_def)
  have "isfinite (deadband_of 2 sample_manager)" by (simp add: sample_manager_deadband)
  from events_follow_the_value [OF sample_manager_untouched vals this, of sample_quality]
  show ?thesis by blast
qed

section \<open>Start\<close>

lemma configured_deadband:
  assumes "validatePointDatabase db = Inr ()" and "db_analog_input (fresh_database lib) = []"
  shows "map_of (db_analog_input (configureDatabaseFromConfig lib (fresh_database lib) db)) index =
     (if \<exists>pc \<in> set (analog_input db). covers index pc
      then Some (analog_setting nameMap_StaticAnalog nameMap_EventAnalog
        (filter (covers index) (analog_input db)) (fresh_analog lib))
      else None)"
  using analog_input_names.section_setting [OF validated_sections(3) [OF assms(1)]] assms(2)
  by (simp add: configureDatabaseFromConfig_def table_setting_def)

lemma start_deadband:
  "deadband_of index (start lib m) =
     (case map_of (db_analog_input (start_database lib (om_cfg m))) index of
        Some pt \<Rightarrow> a_deadband pt | None \<Rightarrow> zero_double)"
proof -
  have "map_of (map (\<lambda>(index, pt). (index, a_deadband pt)) xs) index =
      map_option a_deadband (map_of xs index)" for xs :: "(u16, AnalogInputPoint) omap"
    by (induction xs) auto
  then show ?thesis by (simp add: deadband_of_def start_def Let_def split: option.split)
qed

text \<open>
  After start the event decisions use the configured deadbands: for a validated point
  database that names any point, an analog point has the deadband given by the last entry that
  covers its index and gives one, the library's default deadband if the covering entries give
  none, and zero if no entry covers it. Every point starts without history, and the stack gets
  the addresses, the event buffer, the command mode and the unsolicited settings of the file.
\<close>

theorem start_uses_configuration:
  assumes "validatePointDatabase (point_database (om_cfg m)) = Inr ()"
    and "\<not> point_database_empty (point_database (om_cfg m))"
    and "db_analog_input (fresh_database lib) = []"
  shows "deadband_of index (start lib m) =
       (if \<exists>pc \<in> set (analog_input (point_database (om_cfg m))). covers index pc
        then last_given deadband
          (filter (covers index) (analog_input (point_database (om_cfg m))))
          (a_deadband (fresh_analog lib))
        else zero_double) \<and>
     analog_state_of index (start lib m) = fresh_analog_state \<and>
     binary_state_of index (start lib m) = fresh_binary_state \<and>
     (\<exists>stack. outstation (start lib m) = Some stack \<and>
        LocalAddr stack = dnp3_local_address (om_cfg m) \<and>
        RemoteAddr stack = dnp3_remote_address (om_cfg m) \<and>
        eventBufferConfig stack = event_buffer (om_cfg m) \<and>
        allowUnsolicited stack = enabled (unsolicited (om_cfg m)) \<and>
        (class1 (unsolClassMask stack) \<longleftrightarrow> ''class1'' \<in> set (class_mask (unsolicited (om_cfg m)))) \<and>
        (handler_mode stack = SelectBeforeOperate \<longleftrightarrow>
           command_mode (om_cfg m) = ''select_before_operate''))"
proof -
  have "deadband_of index (start lib m) =
       (if \<exists>pc \<in> set (analog_input (point_database (om_cfg m))). covers index pc
        then last_given deadband
          (filter (covers index) (analog_input (point_database (om_cfg m))))
          (a_deadband (fresh_analog lib))
        else zero_double)"
    using configured_deadband [OF assms(1,3), of index] assms(2)
    by (simp add: start_deadband start_database_def analog_setting_def)
  moreover have "analog_state_of index (start lib m) = fresh_analog_state"
    "binary_state_of index (start lib m) = fresh_binary_state"
    by (simp_all add: analog_state_of_def binary_state_of_def start_def Let_def)
  ultimately show ?thesis
    by (simp add: start_def Let_def stack_config_def buildClassMask_set command_mode_of_def)
qed

theorem start_uses_configuration_witness:
  "deadband_of 2 sample_manager = Fin False 10 \<and> deadband_of 4 sample_manager = zero_double"
proof -
  define m where "m = new_OutstationManager (default_AppConfig
     \<lparr>point_database := default_PointDatabaseConfig
        \<lparr>analog_input := [default_PointConfig\<lparr>pc_end := 3, deadband := Some (Fin False 10)\<rparr>]\<rparr>\<rparr>)"
  have cfg: "validatePointDatabase (point_database (om_cfg m)) = Inr ()"
    "\<not> point_database_empty (point_database (om_cfg m))"
    unfolding m_def by code_simp+
  have fresh: "db_analog_input (fresh_database sample_defaults) = []"
    by (simp add: sample_defaults_def no_points_def)
  have entries: "analog_input (point_database (om_cfg m)) =
      [default_PointConfig\<lparr>pc_end := 3, deadband := Some (Fin False 10)\<rparr>]"
    by (simp add: m_def new_OutstationManager_def)
  have started: "sample_manager = start sample_defaults m"
    by (simp add: sample_manager_def m_def)
  show ?thesis unfolding started
    using start_uses_configuration [OF cfg fresh, of 2] start_uses_configuration [OF cfg fresh, of 4]
    by (simp add: entries covers_def default_PointConfig_def)
qed

end
