(* ===== verification/Bridge.thy ===== *)
theory Bridge
  imports Outstation
begin

text \<open>
  \<open>src/src/bridge/Bridge.cpp\<close>: the queue between the gRPC threads and the outstation, with the
  flush thread. Steps are the lock sections of the code, one \<open>notify\<close>, or one delivered update.
\<close>

section \<open>State\<close>

text \<open>
  Where the flush thread is: about to take the lock and test the predicate of \<open>cv_.wait\<close>,
  blocked in it, or delivering its batch.
\<close>

datatype flush_pc = No_thread | Checking | Sleeping | Draining "PointUpdate list" | Exited

text \<open>Where the thread that calls \<open>start\<close> and \<open>stop\<close> is.\<close>

datatype control_pc = Outside | Launching | Notifying_all | Joining

text \<open>
  \<open>to_notify\<close> counts the calls of \<open>applyUpdate\<close> between the end of their lock section and
  \<open>notify_one\<close>. \<open>accepted\<close>, \<open>delivered\<close> and \<open>stop_mark\<close> (the length of \<open>accepted\<close> when \<open>stop\<close>
  last cleared the flag) are a record of what happened; no step reads them.
\<close>

record bridge =
  queue :: "PointUpdate list"
  running :: bool
  flush :: flush_pc
  control :: control_pc
  to_notify :: nat
  out :: OutstationManager
  accepted :: "PointUpdate list"
  delivered :: "PointUpdate list"
  stop_mark :: nat

definition new_bridge :: "OutstationManager \<Rightarrow> bridge" where
  "new_bridge m =
     \<lparr>queue = [], running = False, flush = No_thread, control = Outside, to_notify = 0,
      out = m, accepted = [], delivered = [], stop_mark = 0\<rparr>"

section \<open>Steps\<close>

datatype bridge_action =
  Push PointUpdate | Notify_one | Spurious_wakeup | Test | Deliver
| Start | Launch | Stop | Notify_all | Join

definition push_update :: "PointUpdate \<Rightarrow> bridge \<Rightarrow> bridge" where
  "push_update u b =
     b\<lparr>queue := queue b @ [u], to_notify := Suc (to_notify b), accepted := accepted b @ [u]\<rparr>"

definition wake :: "flush_pc \<Rightarrow> flush_pc" where
  "wake pc = (if pc = Sleeping then Checking else pc)"

definition notify_one :: "bridge \<Rightarrow> bridge option" where
  "notify_one b =
     (if to_notify b = 0 then None
      else Some (b\<lparr>to_notify := to_notify b - 1, flush := wake (flush b)\<rparr>))"

definition spurious_wakeup :: "bridge \<Rightarrow> bridge option" where
  "spurious_wakeup b = (if flush b = Sleeping then Some (b\<lparr>flush := Checking\<rparr>) else None)"

text \<open>The lock section of \<open>flushLoop\<close>.\<close>

definition test_predicate :: "bridge \<Rightarrow> bridge option" where
  "test_predicate b =
     (if flush b \<noteq> Checking then None
      else if queue b = [] \<and> running b then Some (b\<lparr>flush := Sleeping\<rparr>)
      else if \<not> running b \<and> queue b = [] then Some (b\<lparr>flush := Exited\<rparr>)
      else Some (b\<lparr>flush := Draining (queue b), queue := []\<rparr>))"

definition deliver_front :: "AnalogQuality \<Rightarrow> bridge \<Rightarrow> bridge option" where
  "deliver_front lib b =
     (case flush b of
        Draining [] \<Rightarrow> Some (b\<lparr>flush := Checking\<rparr>)
      | Draining (u # us) \<Rightarrow>
          Some (b\<lparr>flush := Draining us, out := deliver lib u (out b),
                  delivered := delivered b @ [u]\<rparr>)
      | _ \<Rightarrow> None)"

definition start_flag :: "bridge \<Rightarrow> bridge option" where
  "start_flag b =
     (if control b \<noteq> Outside then None
      else if running b then Some b
      else Some (b\<lparr>running := True, control := Launching\<rparr>))"

definition launch_thread :: "bridge \<Rightarrow> bridge option" where
  "launch_thread b =
     (if control b \<noteq> Launching then None
      else Some (b\<lparr>flush := Checking, control := Outside\<rparr>))"

definition stop_flag :: "bridge \<Rightarrow> bridge option" where
  "stop_flag b =
     (if control b \<noteq> Outside then None
      else if \<not> running b then Some b
      else Some (b\<lparr>running := False, control := Notifying_all, stop_mark := length (accepted b)\<rparr>))"

definition notify_all :: "bridge \<Rightarrow> bridge option" where
  "notify_all b =
     (if control b \<noteq> Notifying_all then None
      else Some (b\<lparr>flush := wake (flush b), control := Joining\<rparr>))"

text \<open>\<open>join\<close> returns once the flush thread has left \<open>flushLoop\<close>.\<close>

definition join_thread :: "bridge \<Rightarrow> bridge option" where
  "join_thread b =
     (if control b = Joining \<and> flush b = Exited then Some (b\<lparr>control := Outside\<rparr>) else None)"

fun bridge_perform :: "AnalogQuality \<Rightarrow> bridge_action \<Rightarrow> bridge \<Rightarrow> bridge option" where
  "bridge_perform lib (Push u) b = Some (push_update u b)"
| "bridge_perform lib Notify_one b = notify_one b"
| "bridge_perform lib Spurious_wakeup b = spurious_wakeup b"
| "bridge_perform lib Test b = test_predicate b"
| "bridge_perform lib Deliver b = deliver_front lib b"
| "bridge_perform lib Start b = start_flag b"
| "bridge_perform lib Launch b = launch_thread b"
| "bridge_perform lib Stop b = stop_flag b"
| "bridge_perform lib Notify_all b = notify_all b"
| "bridge_perform lib Join b = join_thread b"

lemmas bridge_ops =
  push_update_def notify_one_def spurious_wakeup_def test_predicate_def deliver_front_def
  start_flag_def launch_thread_def stop_flag_def notify_all_def join_thread_def

inductive bstep :: "AnalogQuality \<Rightarrow> bridge \<Rightarrow> bridge \<Rightarrow> bool" for lib where
  bstep_perform: "bridge_perform lib a b = Some b' \<Longrightarrow> bstep lib b b'"

inductive_cases bstepE: "bstep lib b b'"

inductive breachable :: "AnalogQuality \<Rightarrow> OutstationManager \<Rightarrow> bridge \<Rightarrow> bool" for lib m where
  breachable_initial: "breachable lib m (new_bridge m)"
| breachable_step: "breachable lib m b \<Longrightarrow> bstep lib b b' \<Longrightarrow> breachable lib m b'"

lemma breachable_least:
  assumes "breachable lib m b" and "\<And>b. b = new_bridge m \<Longrightarrow> P b"
    and "\<And>b b'. breachable lib m b \<Longrightarrow> P b \<Longrightarrow> bstep lib b b' \<Longrightarrow> P b'"
  shows "P b"
  using assms(1)
proof (induction rule: breachable.induct)
  case breachable_initial
  show ?case by (rule assms(2)) (rule refl)
next
  case (breachable_step b b')
  show ?case by (rule assms(3)) (fact breachable_step)+
qed

interpretation bridging: transition_system "\<lambda>b. b = new_bridge m" "bstep lib" "breachable lib m"
  for lib m
  by unfold_locales (fact breachable_least | blast intro: breachable.intros)+

fun bridge_run :: "AnalogQuality \<Rightarrow> bridge_action list \<Rightarrow> bridge \<Rightarrow> bridge option" where
  "bridge_run lib [] b = Some b"
| "bridge_run lib (a # as) b =
     (case bridge_perform lib a b of None \<Rightarrow> None | Some b' \<Rightarrow> bridge_run lib as b')"

lemma breachable_run:
  "breachable lib m b \<Longrightarrow> bridge_run lib as b = Some b' \<Longrightarrow> breachable lib m b'"
proof (induction as arbitrary: b)
  case (Cons a as)
  then obtain c where "bridge_perform lib a b = Some c" "bridge_run lib as c = Some b'"
    by (auto split: option.splits)
  with Cons show ?case by (blast intro: bridging.reachable_step bstep_perform)
qed simp

section \<open>Invariants\<close>

fun batch :: "flush_pc \<Rightarrow> PointUpdate list" where
  "batch (Draining us) = us"
| "batch No_thread = []"
| "batch Checking = []"
| "batch Sleeping = []"
| "batch Exited = []"

definition fifo :: "AnalogQuality \<Rightarrow> OutstationManager \<Rightarrow> bridge \<Rightarrow> bool" where
  "fifo lib m b \<longleftrightarrow>
     accepted b = delivered b @ batch (flush b) @ queue b \<and>
     out b = deliver_all lib (delivered b) m"

text \<open>A flush thread that sleeps has nothing to do, or its wakeup is still to come.\<close>

definition awake :: "bridge \<Rightarrow> bool" where
  "awake b \<longleftrightarrow>
     (flush b = Sleeping \<longrightarrow>
        (queue b = [] \<or> to_notify b > 0) \<and> (running b \<or> control b = Notifying_all))"

definition controlled :: "bridge \<Rightarrow> bool" where
  "controlled b \<longleftrightarrow>
     (case control b of
        Outside \<Rightarrow> if running b then flush b \<noteq> No_thread \<and> flush b \<noteq> Exited
                   else flush b = No_thread \<or> flush b = Exited
      | Launching \<Rightarrow> running b \<and> (flush b = No_thread \<or> flush b = Exited)
      | Notifying_all \<Rightarrow> \<not> running b \<and> flush b \<noteq> No_thread
      | Joining \<Rightarrow> \<not> running b \<and> flush b \<noteq> No_thread \<and> flush b \<noteq> Sleeping)"

definition drained :: "bridge \<Rightarrow> bool" where
  "drained b \<longleftrightarrow> stop_mark b \<le> length (accepted b) \<and>
     (flush b = Exited \<longrightarrow> stop_mark b \<le> length (delivered b))"

definition bridge_ok :: "AnalogQuality \<Rightarrow> OutstationManager \<Rightarrow> bridge \<Rightarrow> bool" where
  "bridge_ok lib m b \<longleftrightarrow> fifo lib m b \<and> awake b \<and> controlled b \<and> drained b"

lemma deliver_all_snoc: "deliver_all lib (us @ [u]) m = deliver lib u (deliver_all lib us m)"
  by (simp add: deliver_all_def)

lemma fifo_step:
  assumes "bridge_perform lib a b = Some b'" and "controlled b" and "fifo lib m b"
  shows "fifo lib m b'"
  by (cases a)
    (use assms in \<open>auto simp: bridge_ops fifo_def wake_def controlled_def deliver_all_snoc
      split: if_splits flush_pc.splits list.splits\<close>)

lemma awake_step:
  assumes "bridge_perform lib a b = Some b'" and "controlled b" and "awake b"
  shows "awake b'"
  by (cases a)
    (use assms in \<open>auto simp: bridge_ops awake_def wake_def controlled_def
      split: if_splits flush_pc.splits list.splits\<close>)

lemma controlled_step:
  assumes "bridge_perform lib a b = Some b'" and "controlled b" and "awake b"
  shows "controlled b'"
  by (cases a)
    (use assms in \<open>auto simp: bridge_ops controlled_def awake_def wake_def
      split: if_splits flush_pc.splits list.splits control_pc.splits\<close>)

lemma drained_step:
  assumes "bridge_perform lib a b = Some b'" and "controlled b" and "fifo lib m b" and "drained b"
  shows "drained b'"
  by (cases a)
    (use assms in \<open>auto simp: bridge_ops drained_def fifo_def controlled_def wake_def
      split: if_splits flush_pc.splits list.splits\<close>)

lemma bridge_ok_initial: "bridge_ok lib m (new_bridge m)"
  by (simp add: bridge_ok_def fifo_def awake_def controlled_def drained_def new_bridge_def)

lemma bridge_ok_step: "bstep lib b b' \<Longrightarrow> bridge_ok lib m b \<Longrightarrow> bridge_ok lib m b'"
  unfolding bridge_ok_def
  by (auto elim!: bstepE intro: fifo_step awake_step controlled_step drained_step)

lemma reachable_bridge_ok: "breachable lib m b \<Longrightarrow> bridge_ok lib m b"
  by (rule bridging.invariant [where P = "bridge_ok lib m" and m = m])
    (auto intro: bridge_ok_initial bridge_ok_step)

lemma bridge_parts:
  assumes "breachable lib m b"
  shows "fifo lib m b" "awake b" "controlled b" "drained b"
  using reachable_bridge_ok [OF assms] by (simp_all add: bridge_ok_def)

section \<open>Order and delivery\<close>

text \<open>
  C2: Under any interleaving of producers, wakeups, start and stop, updates reach the outstation
  in the order in which \<open>applyUpdate\<close> accepted them, none lost, none twice: the accepted updates
  are those delivered, then the rest of the current batch, then the queue, and the outstation
  has applied exactly the delivered ones.
\<close>

theorem updates_in_fifo_order:
  assumes "breachable lib m b" and "outstation m \<noteq> None"
  shows "accepted b = delivered b @ batch (flush b) @ queue b \<and>
         out b = deliver_all lib (delivered b) m \<and>
         map content_of (applied (out b)) =
           map content_of (applied m) @ map (expected_content lib) (delivered b)"
  using bridge_parts(1) [OF assms(1)] deliver_all_content [OF assms(2)] by (simp add: fifo_def)

text \<open>Two producers, a batch of two, and a third update on its way when \<open>stop\<close> is called.\<close>

definition busy_run :: "bridge_action list" where
  "busy_run =
     [Start, Launch, Test, Push (sample_updates ! 0), Push (sample_updates ! 2), Notify_one, Test,
      Deliver, Push (sample_updates ! 3), Stop, Notify_all]"

definition busy_bridge :: bridge where
  "busy_bridge = the (bridge_run sample_quality busy_run (new_bridge sample_manager))"

lemma busy_bridge_run:
  "bridge_run sample_quality busy_run (new_bridge sample_manager) = Some busy_bridge"
  by (simp add: busy_bridge_def busy_run_def bridge_ops new_bridge_def wake_def)

lemma busy_bridge_reachable: "breachable sample_quality sample_manager busy_bridge"
  by (rule breachable_run [OF breachable_initial busy_bridge_run])

lemma busy_bridge_fields:
  "control busy_bridge = Joining" "queue busy_bridge = [sample_updates ! 3]"
  "flush busy_bridge = Draining [sample_updates ! 2]"
  "delivered busy_bridge = [sample_updates ! 0]"
  by (simp_all add: busy_bridge_def busy_run_def bridge_ops new_bridge_def wake_def)

theorem updates_in_fifo_order_witness:
  "accepted busy_bridge = [sample_updates ! 0, sample_updates ! 2, sample_updates ! 3] \<and>
   map content_of (applied (out busy_bridge)) = [Analog_content (Fin False 100) 1 2]"
proof -
  have content: "expected_content sample_quality (sample_updates ! 0) = Analog_content (Fin False 100) 1 2"
    by (simp add: sample_updates_def sample_quality_def)
  note all = updates_in_fifo_order [OF busy_bridge_reachable sample_manager_started]
  have "map content_of (applied (out busy_bridge)) = [Analog_content (Fin False 100) 1 2]"
    unfolding all [THEN conjunct2, THEN conjunct2] busy_bridge_fields(4)
    by (simp add: sample_manager_fresh content)
  then show ?thesis using all by (simp add: busy_bridge_fields)
qed

text \<open>
  C18: No lost wakeup: whenever the flush thread sleeps while updates are queued, a producer that
  pushed one of them is still to call \<open>notify_one\<close>, and whenever it sleeps although \<open>stop\<close> has
  cleared the flag, \<open>stop\<close> is still to call \<open>notify_all\<close>; either call wakes it.
\<close>

theorem no_lost_wakeup:
  assumes "breachable lib m b" and "flush b = Sleeping"
  shows "(queue b \<noteq> [] \<longrightarrow>
            to_notify b > 0 \<and> (\<exists>b'. notify_one b = Some b' \<and> flush b' = Checking)) \<and>
         (\<not> running b \<longrightarrow> (\<exists>b'. notify_all b = Some b' \<and> flush b' = Checking))"
  using bridge_parts(2) [OF assms(1)] assms(2)
  by (auto simp: awake_def notify_one_def notify_all_def wake_def)

theorem no_lost_wakeup_witness:
  "\<exists>b b'. breachable sample_quality sample_manager b \<and> queue b \<noteq> [] \<and>
     notify_one b = Some b' \<and> flush b' = Checking"
proof -
  define b where "b = the (bridge_run sample_quality [Start, Launch, Test, Push (sample_updates ! 0)]
    (new_bridge sample_manager))"
  have run: "bridge_run sample_quality [Start, Launch, Test, Push (sample_updates ! 0)]
    (new_bridge sample_manager) = Some b"
    by (simp add: b_def bridge_ops new_bridge_def)
  have reach: "breachable sample_quality sample_manager b"
    by (rule breachable_run [OF breachable_initial run])
  have "flush b = Sleeping" "queue b \<noteq> []"
    by (simp_all add: b_def bridge_ops new_bridge_def)
  with no_lost_wakeup [OF reach] reach show ?thesis by blast
qed

section \<open>Stop\<close>

fun flushing :: "bridge_action \<Rightarrow> bool" where
  "flushing Test = True"
| "flushing Deliver = True"
| "flushing (Push u) = False"
| "flushing Notify_one = False"
| "flushing Spurious_wakeup = False"
| "flushing Start = False"
| "flushing Launch = False"
| "flushing Stop = False"
| "flushing Notify_all = False"
| "flushing Join = False"

text \<open>The steps the flush thread has left once \<open>running_\<close> is false.\<close>

definition steps_left :: "bridge \<Rightarrow> nat" where
  "steps_left b =
     (let idle = (if queue b = [] then 1 else length (queue b) + 3) in
      case flush b of
        Exited \<Rightarrow> 0
      | Draining us \<Rightarrow> length us + 1 + idle
      | No_thread \<Rightarrow> 0 | Checking \<Rightarrow> idle | Sleeping \<Rightarrow> 0)"

lemma flushing_step:
  assumes "flushing a" and "bridge_perform lib a b = Some b'" and "\<not> running b"
  shows "steps_left b = Suc (steps_left b') \<and> running b' = running b \<and>
     control b' = control b \<and> accepted b' = accepted b"
  by (cases a)
    (use assms in \<open>auto simp: bridge_ops steps_left_def Let_def
      split: if_splits flush_pc.splits list.splits\<close>)

lemma flushing_run:
  "bridge_run lib as b = Some b' \<Longrightarrow> \<forall>a \<in> set as. flushing a \<Longrightarrow> \<not> running b \<Longrightarrow>
     steps_left b = length as + steps_left b' \<and> \<not> running b' \<and> control b' = control b \<and>
     accepted b' = accepted b"
proof (induction as arbitrary: b)
  case (Cons a as)
  from Cons.prems(1) obtain c where c: "bridge_perform lib a b = Some c" "bridge_run lib as c = Some b'"
    by (auto split: option.splits)
  have one: "steps_left b = Suc (steps_left c) \<and> running c = running b \<and> control c = control b \<and>
      accepted c = accepted b"
    using Cons.prems c(1) by (intro flushing_step) simp_all
  moreover have "steps_left c = length as + steps_left b' \<and> \<not> running b' \<and>
      control b' = control c \<and> accepted b' = accepted c"
    using Cons.prems c one by (intro Cons.IH) simp_all
  ultimately show ?case by simp
qed simp

text \<open>The flush thread exits with an empty queue.\<close>

lemma flushing_exit:
  "bridge_run lib as b = Some b' \<Longrightarrow> \<forall>a \<in> set as. flushing a \<Longrightarrow>
     flush b = Exited \<longrightarrow> queue b = [] \<Longrightarrow> flush b' = Exited \<longrightarrow> queue b' = []"
proof (induction as arbitrary: b)
  case (Cons a as)
  from Cons.prems(1) obtain c where c: "bridge_perform lib a b = Some c" "bridge_run lib as c = Some b'"
    by (auto split: option.splits)
  have "flushing a" using Cons.prems by simp
  then have "flush c = Exited \<longrightarrow> queue c = []"
    by (cases a) (use c(1) in \<open>auto simp: bridge_ops split: if_splits flush_pc.splits list.splits\<close>)
  then show ?case using Cons c by simp
qed simp

lemma flushing_stuck:
  assumes "controlled b" and "control b = Joining"
    and "\<forall>a. flushing a \<longrightarrow> bridge_perform lib a b = None"
  shows "flush b = Exited"
proof (cases "flush b")
  case Checking
  then have "bridge_perform lib Test b \<noteq> None" by (simp add: test_predicate_def)
  with assms(3) show ?thesis by (metis flushing.simps(1))
next
  case (Draining us)
  then have "bridge_perform lib Deliver b \<noteq> None"
    by (simp add: deliver_front_def split: list.split)
  with assms(3) show ?thesis by (metis flushing.simps(2))
qed (use assms in \<open>simp_all add: controlled_def\<close>)

text \<open>
  C9: \<open>stop\<close> terminates and drains: once \<open>stop\<close> waits in \<open>join\<close>, the flush thread needs at most
  one step for each update still in the batch or the queue and four more, no step of another
  thread is needed, and when it can step no further it has exited, \<open>join\<close> returns, and every
  update accepted up to then has been delivered.
\<close>

theorem stop_drains:
  assumes "breachable lib m b" and "control b = Joining"
    and "bridge_run lib as b = Some b'" and "\<forall>a \<in> set as. flushing a"
  shows "length as \<le> length (batch (flush b)) + length (queue b) + 4 \<and>
         ((\<forall>a. flushing a \<longrightarrow> bridge_perform lib a b' = None) \<longrightarrow>
            join_thread b' \<noteq> None \<and> stop_mark b' \<le> length (delivered b') \<and>
            (flush b \<noteq> Exited \<longrightarrow> delivered b' = accepted b))"
proof -
  have running: "\<not> running b" using bridge_parts(3) [OF assms(1)] assms(2)
    by (simp add: controlled_def)
  note run = flushing_run [OF assms(3,4) running]
  have reach: "breachable lib m b'" using assms(1,3) by (rule breachable_run)
  have "steps_left b \<le> length (batch (flush b)) + length (queue b) + 4"
    by (cases "flush b") (simp_all add: steps_left_def Let_def)
  moreover have "join_thread b' \<noteq> None \<and> stop_mark b' \<le> length (delivered b') \<and>
      (flush b \<noteq> Exited \<longrightarrow> delivered b' = accepted b)"
    if "\<forall>a. flushing a \<longrightarrow> bridge_perform lib a b' = None"
  proof -
    have "flush b' = Exited"
      using bridge_parts(3) [OF reach] run assms(2) that by (intro flushing_stuck) simp_all
    then show ?thesis
      using run assms(2) bridge_parts(1,4) [OF reach] flushing_exit [OF assms(3,4)]
      by (auto simp: join_thread_def drained_def fifo_def)
  qed
  ultimately show ?thesis using run by auto
qed

theorem stop_drains_witness:
  "length [Deliver, Deliver, Test, Deliver, Deliver, Test] \<le> 1 + 1 + (4 :: nat) \<and>
   bridge_run sample_quality [Deliver, Deliver, Test, Deliver, Deliver, Test] busy_bridge \<noteq> None"
proof -
  have run: "bridge_run sample_quality [Deliver, Deliver, Test, Deliver, Deliver, Test] busy_bridge
      \<noteq> None"
    by (simp add: busy_bridge_def busy_run_def bridge_ops new_bridge_def wake_def)
  then obtain b' where "bridge_run sample_quality [Deliver, Deliver, Test, Deliver, Deliver, Test]
      busy_bridge = Some b'" by blast
  from stop_drains [OF busy_bridge_reachable busy_bridge_fields(1) this] run
  show ?thesis by (simp add: busy_bridge_fields)
qed

section \<open>One request, two batches\<close>

text \<open>
  Two updates of one request can reach the outstation in different batches: the flush thread may
  take the first before the second is queued.
\<close>

lemma request_can_be_split:
  "\<exists>b. breachable sample_quality sample_manager b \<and>
     accepted b = [sample_updates ! 0, sample_updates ! 2] \<and>
     delivered b = [sample_updates ! 0] \<and> flush b = Sleeping"
proof -
  define b where "b = the (bridge_run sample_quality
    [Start, Launch, Push (sample_updates ! 0), Test, Deliver, Deliver, Test, Push (sample_updates ! 2)]
    (new_bridge sample_manager))"
  have run: "bridge_run sample_quality
    [Start, Launch, Push (sample_updates ! 0), Test, Deliver, Deliver, Test, Push (sample_updates ! 2)]
    (new_bridge sample_manager) = Some b"
    by (simp add: b_def bridge_ops new_bridge_def)
  show ?thesis
    using breachable_run [OF breachable_initial run]
    by (intro exI [of _ b]) (simp add: b_def bridge_ops new_bridge_def)
qed

end
