(* ===== verification/BridgeService.thy ===== *)
theory BridgeService
  imports Bridge DispatcherThreads
begin

text \<open>
  \<open>src/src/grpc/BridgeServiceImpl.cpp\<close>: the four calls of the gRPC service, and
  \<open>src/src/dnp3/PointMap.cpp\<close>. A call takes the request and the components it touches and
  gives the response and their new states.
\<close>

section \<open>Conversions\<close>

definition toCommandStatus :: "CommandResultStatus \<Rightarrow> CommandStatus" where
  "toCommandStatus s =
     (if s = COMMAND_RESULT_SUCCESS then SUCCESS
      else if s = COMMAND_RESULT_TIMEOUT then TIMEOUT
      else if s = COMMAND_RESULT_NO_SELECT then NO_SELECT
      else if s = COMMAND_RESULT_FORMAT_ERROR then FORMAT_ERROR
      else if s = COMMAND_RESULT_NOT_SUPPORTED then NOT_SUPPORTED
      else if s = COMMAND_RESULT_ALREADY_ACTIVE then ALREADY_ACTIVE
      else if s = COMMAND_RESULT_HARDWARE_ERROR then HARDWARE_ERROR
      else if s = COMMAND_RESULT_LOCAL then LOCAL
      else if s = COMMAND_RESULT_TOO_MANY_OPS then TOO_MANY_OPS
      else if s = COMMAND_RESULT_NOT_AUTHORIZED then NOT_AUTHORIZED
      else if s = COMMAND_RESULT_DOWNSTREAM_FAIL then DOWNSTREAM_FAIL
      else UNDEFINED)"

definition toQuality :: "PointQuality \<Rightarrow> Quality" where
  "toQuality q =
     (if q = POINT_QUALITY_UNCERTAIN then Uncertain
      else if q = POINT_QUALITY_BAD then Bad
      else if q = POINT_QUALITY_RESTART then Restart
      else Good)"

section \<open>UpdatePoints\<close>

text \<open>\<open>applyUpdate\<close> run without interruption: the lock section, then \<open>notify_one\<close>.\<close>

definition applyUpdate :: "PointUpdate \<Rightarrow> bridge \<Rightarrow> bridge" where
  "applyUpdate u b =
     (case notify_one (push_update u b) of None \<Rightarrow> push_update u b | Some b' \<Rightarrow> b')"

definition analog_update_of :: "AnalogPointMsg \<Rightarrow> PointUpdate" where
  "analog_update_of a = Analog_update
     \<lparr>au_index = ucast (am_index a), au_value = am_value a, au_quality = toQuality (am_quality a)\<rparr>"

definition binary_update_of :: "BinaryPointMsg \<Rightarrow> PointUpdate" where
  "binary_update_of p = Binary_update
     \<lparr>bu_index = ucast (bm_index p), bu_value = bm_value p, bu_quality = toQuality (bm_quality p)\<rparr>"

record BridgeServiceImpl =
  last_update_ms :: u64

definition UpdatePoints ::
  "u64 \<Rightarrow> UpdateRequest \<Rightarrow> BridgeServiceImpl \<Rightarrow> bridge
     \<Rightarrow> UpdateResponse \<times> BridgeServiceImpl \<times> bridge" where
  "UpdatePoints now_ms request svc b =
     (let b1 = fold (\<lambda>a. applyUpdate (analog_update_of a)) (analogs request) b;
          b2 = fold (\<lambda>p. applyUpdate (binary_update_of p)) (binaries request) b1
      in (\<lparr>success = True, message = ''accepted''\<rparr>, svc\<lparr>last_update_ms := now_ms\<rparr>, b2))"

section \<open>GetStatus\<close>

definition GetStatus :: "OutstationManager \<Rightarrow> BridgeServiceImpl \<Rightarrow> StatusResponse" where
  "GetStatus m svc =
     \<lparr>state = (if isConnected m then OUTSTATION_STATE_CONNECTED else OUTSTATION_STATE_DISCONNECTED),
      last_update_timestamp_ms = last_update_ms svc\<rparr>"

section \<open>StreamCommands\<close>

text \<open>
  \<open>cancelled k\<close> is what the \<open>k\<close>-th \<open>IsCancelled\<close> returns, \<open>others k\<close> what the other threads do
  to the dispatcher during the \<open>k\<close>-th sleep. The loop may never end.
\<close>

partial_function (option) poll_loop ::
  "(nat \<Rightarrow> bool) \<Rightarrow> (nat \<Rightarrow> dispatcher \<Rightarrow> dispatcher) \<Rightarrow> nat \<Rightarrow> dispatcher \<Rightarrow> dispatcher option" where
  "poll_loop cancelled others k d =
     (if cancelled k then Some d else poll_loop cancelled others (Suc k) (others k d))"

definition StreamCommands ::
  "(nat \<Rightarrow> bool) \<Rightarrow> (nat \<Rightarrow> dispatcher \<Rightarrow> dispatcher) \<Rightarrow> writer \<Rightarrow> dispatcher \<Rightarrow> dispatcher option" where
  "StreamCommands cancelled others w d =
     (case registerWriter w d of (token, d1) \<Rightarrow>
        (case poll_loop cancelled others 0 d1 of
           None \<Rightarrow> None
         | Some d2 \<Rightarrow> Some (destroy_token token d2)))"

section \<open>RespondToCommand\<close>

definition RespondToCommand ::
  "CommandResponse \<Rightarrow> dispatcher \<Rightarrow> UpdateResponse \<times> dispatcher" where
  "RespondToCommand request d =
     (case fulfill (response_command_id request) (toCommandStatus (response_status request)) d of
        (ok, d') \<Rightarrow>
          (\<lparr>success = ok, message = (if ok then ''fulfilled'' else ''unknown command_id'')\<rparr>, d'))"

section \<open>Point names\<close>

datatype PointType = Analog_point | Binary_point | Counter_point

record PointAddress =
  pa_type :: PointType
  pa_index :: u16

type_synonym PointMap = "string \<rightharpoonup> PointAddress"

text \<open>\<open>emplace\<close> inserts only when the key is not there.\<close>

definition add :: "string \<Rightarrow> PointAddress \<Rightarrow> PointMap \<Rightarrow> PointMap" where
  "add name address m = (if m name = None then m(name \<mapsto> address) else m)"

definition resolve :: "string \<Rightarrow> PointMap \<Rightarrow> PointAddress option" where
  "resolve name m = m name"

section \<open>Properties\<close>

lemma wire_values:
  "s < 0 \<or> 10 < s \<or> s = 0 \<or> s = 1 \<or> s = 2 \<or> s = 3 \<or> s = 4 \<or> s = 5 \<or> s = 6 \<or> s = 7 \<or>
   s = 8 \<or> s = 9 \<or> s = (10 :: int)"
  by presburger

lemma toCommandStatus_range:
  "toCommandStatus s \<noteq> UNDEFINED \<longleftrightarrow> 0 \<le> s \<and> s \<le> 10"
  using wire_values [of s] by (elim disjE) (simp_all add: toCommandStatus_def command_result_values)

text \<open>
  Statuses of the client arrive unchanged: the eleven wire values 0 to 10 become eleven
  different DNP3 statuses, only 0 becomes SUCCESS, and every value outside becomes UNDEFINED,
  never a success.
\<close>

theorem toCommandStatus_faithful:
  "(toCommandStatus s = UNDEFINED \<longleftrightarrow> s < 0 \<or> 10 < s) \<and>
   (toCommandStatus s = toCommandStatus s' \<longleftrightarrow> s = s' \<or> ((s < 0 \<or> 10 < s) \<and> (s' < 0 \<or> 10 < s'))) \<and>
   (toCommandStatus s = SUCCESS \<longleftrightarrow> s = 0)"
proof -
  have out: "toCommandStatus s = UNDEFINED" if "s < 0 \<or> 10 < s" for s
    using that toCommandStatus_range [of s] by auto
  have inj: "toCommandStatus s = toCommandStatus s' \<Longrightarrow> 0 \<le> s \<Longrightarrow> s \<le> 10 \<Longrightarrow> s = s'" for s s'
    using wire_values [of s] wire_values [of s']
    by (elim disjE) (simp_all add: toCommandStatus_def command_result_values)
  have "toCommandStatus s = SUCCESS \<longleftrightarrow> s = 0"
    by (simp add: toCommandStatus_def command_result_values)
  then show ?thesis
    using toCommandStatus_range [of s] toCommandStatus_range [of s'] inj [of s s'] inj [of s' s] out
    by (metis linorder_not_less)
qed

lemma applyUpdate_fields:
  "queue (applyUpdate u b) = queue b @ [u]"
  "accepted (applyUpdate u b) = accepted b @ [u]"
  "delivered (applyUpdate u b) = delivered b"
  "out (applyUpdate u b) = out b"
  "to_notify (applyUpdate u b) = to_notify b"
  "flush (applyUpdate u b) = wake (flush b)"
  by (simp_all add: applyUpdate_def push_update_def notify_one_def)

lemma fold_applyUpdate:
  "queue (fold (\<lambda>x. applyUpdate (f x)) xs b) = queue b @ map f xs"
  "accepted (fold (\<lambda>x. applyUpdate (f x)) xs b) = accepted b @ map f xs"
  "delivered (fold (\<lambda>x. applyUpdate (f x)) xs b) = delivered b"
  "out (fold (\<lambda>x. applyUpdate (f x)) xs b) = out b"
  by (induction xs arbitrary: b) (simp_all add: applyUpdate_fields)

definition updates_of :: "UpdateRequest \<Rightarrow> PointUpdate list" where
  "updates_of request = map analog_update_of (analogs request) @ map binary_update_of (binaries request)"

text \<open>The specification of a quality, by the numbers of the wire format.\<close>

definition quality_of_wire :: "int \<Rightarrow> Quality" where
  "quality_of_wire q = (if q = 1 then Uncertain else if q = 2 then Bad else if q = 3 then Restart else Good)"

lemma toQuality_wire: "toQuality q = quality_of_wire q"
  by (simp add: toQuality_def quality_of_wire_def point_quality_values)

lemma index_modulo: "(ucast (i :: u32) :: u16) = of_nat (unat i mod 65536)"
  by (metis ucast_u32_u16_unat unat_of_nat_u16 mod_mod_trivial word_unat_eq_iff)

lemma updates_of_explicit:
  "updates_of request =
     map (\<lambda>a. Analog_update \<lparr>au_index = of_nat (unat (am_index a) mod 65536), au_value = am_value a,
        au_quality = quality_of_wire (am_quality a)\<rparr>) (analogs request) @
     map (\<lambda>p. Binary_update \<lparr>bu_index = of_nat (unat (bm_index p) mod 65536), bu_value = bm_value p,
        bu_quality = quality_of_wire (bm_quality p)\<rparr>) (binaries request)"
  by (simp add: updates_of_def analog_update_of_def binary_update_of_def toQuality_wire index_modulo
      cong: map_cong)

text \<open>
  C37: \<open>UpdatePoints\<close> accepts every request and queues its analogs, then its binaries, in order,
  behind what is queued already; nothing is delivered by the call itself. Each update has the value
  of its point and its quality (1, 2 and 3 on the wire are uncertain, bad and restart, all else is
  good). A 32-bit index, of an analog or of a binary, is reduced modulo 65536 instead of rejected,
  and the counters of the request are ignored.
\<close>

theorem UpdatePoints_queues:
  assumes "UpdatePoints now_ms request svc b = (response, svc', b')"
    and "us =
      map (\<lambda>a. Analog_update \<lparr>au_index = of_nat (unat (am_index a) mod 65536), au_value = am_value a,
        au_quality = quality_of_wire (am_quality a)\<rparr>) (analogs request) @
      map (\<lambda>p. Binary_update \<lparr>bu_index = of_nat (unat (bm_index p) mod 65536), bu_value = bm_value p,
        bu_quality = quality_of_wire (bm_quality p)\<rparr>) (binaries request)"
  shows "success response \<and> message response = ''accepted'' \<and> last_update_ms svc' = now_ms \<and>
         queue b' = queue b @ us \<and> accepted b' = accepted b @ us \<and>
         delivered b' = delivered b \<and> out b' = out b \<and>
         UpdatePoints now_ms (request\<lparr>counters := cs\<rparr>) svc b = (response, svc', b')"
proof -
  have "us = updates_of request" using assms(2) by (simp only: updates_of_explicit)
  with assms(1) show ?thesis
    by (auto simp: UpdatePoints_def Let_def fold_applyUpdate updates_of_def)
qed

theorem UpdatePoints_queues_witness:
  "queue (snd (snd (UpdatePoints 5
     \<lparr>analogs = [\<lparr>am_index = 65537, am_value = NaN, am_quality = 9\<rparr>],
      binaries = [\<lparr>bm_index = 131074, bm_value = True, bm_quality = 3\<rparr>],
      counters = [\<lparr>cm_index = 1, cm_value = 2, cm_quality = 0\<rparr>]\<rparr>
     \<lparr>last_update_ms = 0\<rparr> (new_bridge sample_manager)))) =
   [Analog_update \<lparr>au_index = 1, au_value = NaN, au_quality = Good\<rparr>,
    Binary_update \<lparr>bu_index = 2, bu_value = True, bu_quality = Restart\<rparr>]"
proof -
  let ?r = "\<lparr>analogs = [\<lparr>am_index = 65537, am_value = NaN, am_quality = 9\<rparr>],
      binaries = [\<lparr>bm_index = 131074, bm_value = True, bm_quality = 3\<rparr>],
      counters = [\<lparr>cm_index = 1, cm_value = 2, cm_quality = 0\<rparr>]\<rparr> :: UpdateRequest"
  obtain resp svc' b' where run:
    "UpdatePoints 5 ?r \<lparr>last_update_ms = 0\<rparr> (new_bridge sample_manager) = (resp, svc', b')"
    by (cases "UpdatePoints 5 ?r \<lparr>last_update_ms = 0\<rparr> (new_bridge sample_manager)")
  from UpdatePoints_queues [OF run refl] run show ?thesis
    by (simp add: new_bridge_def quality_of_wire_def)
qed

text \<open>
  The quality a client reports is the flag the SCADA sees (REQ-13): BAD clears ONLINE, RESTART
  sets RESTART beside ONLINE, and GOOD, UNCERTAIN and every value this version does not know
  show as ONLINE.
\<close>

lemma quality_flags:
  "toFlagBits lib (toQuality q) =
     (if q = POINT_QUALITY_BAD then 0
      else if q = POINT_QUALITY_RESTART then or (ONLINE lib) (RESTART lib)
      else ONLINE lib)"
  by (simp add: toQuality_def point_quality_values)

text \<open>A promise that was set keeps its value, whatever the threads do.\<close>

lemma results_kept_step:
  assumes "perform a s = Some t" and "entries s" and "results (disp s) c = Some status"
  shows "results (disp t) c = Some status"
  using assms(1)
proof (cases rule: perform_cases)
  case (Accepted cid st c')
  then have "results (disp s) c' = None" using entriesD [OF assms(2)] by blast
  then have "c' \<noteq> c" using assms(3) by auto
  then show ?thesis using Accepted assms(3) by (simp add: fulfill_def erase_pending_def)
qed (use assms(3) in \<open>simp_all add: erase_pending_def take_id_def\<close>)

lemma results_kept:
  assumes "dstep\<^sup>*\<^sup>* s t" and "dreachable s" and "results (disp s) c = Some status"
  shows "results (disp t) c = Some status"
proof (rule dispatching.stable_along [where P = "\<lambda>s. results (disp s) c = Some status", OF assms])
  fix u v
  assume "dreachable u" and "dstep u v" and "results (disp u) c = Some status"
  then show "results (disp v) c = Some status"
    by (auto elim!: dstepE intro: results_kept_step reachable_parts(2))
qed

lemma RespondToCommand_answer:
  "RespondToCommand request (disp s) =
     (case answer (response_command_id request) (toCommandStatus (response_status request)) s of
        (ok, t) \<Rightarrow>
          (\<lparr>success = ok, message = (if ok then ''fulfilled'' else ''unknown command_id'')\<rparr>, disp t))"
  by (simp add: RespondToCommand_def answer_def split: prod.split)

lemma made_grows: "dstep\<^sup>*\<^sup>* s t \<Longrightarrow> made s \<le> made t"
proof (induction rule: rtranclp_induct)
  case (step t u)
  from step.hyps(2) obtain a where "perform a t = Some u" by (rule dstepE)
  then have "made t \<le> made u" by (cases rule: perform_cases) simp_all
  with step.IH show ?case by simp
qed simp

text \<open>
  C38: An accepted response binds its command: \<open>RespondToCommand\<close> reports success exactly when the
  id is that of a command in progress with no answer yet; then, whatever the threads do from there
  on, that command never returns the status of another response (only the status given, or TIMEOUT
  if it had expired, or the failure of its own write), and every further response with this id is
  refused. A refused response changes nothing.
\<close>

theorem RespondToCommand_once:
  assumes "dreachable s" and "RespondToCommand request (disp s) = (response, d)"
    and "s' = snd (answer (response_command_id request) (toCommandStatus (response_status request)) s)"
    and "dstep\<^sup>*\<^sup>* s' t" and "made t \<le> 2 ^ 64"
  shows "d = disp s' \<and>
    (success response \<longleftrightarrow>
      (\<exists>c. call_id c = response_command_id request \<and> entered (phase s c) \<and> results (disp s) c = None)) \<and>
    (success response \<and> call_id c = response_command_id request \<and> c < made s \<longrightarrow>
      (\<forall>status. phase t c = Returned status \<longrightarrow>
         status \<in> {toCommandStatus (response_status request), TIMEOUT, DOWNSTREAM_FAIL, NOT_SUPPORTED}) \<and>
      (\<forall>again. response_command_id again = response_command_id request \<longrightarrow>
         \<not> success (fst (RespondToCommand again (disp t))))) \<and>
    (\<not> success response \<longrightarrow> s' = s)"
proof -
  let ?id = "response_command_id request" and ?st = "toCommandStatus (response_status request)"
  have run: "dstep s s'" using dstep_perform [of "Answer ?id ?st" s] assms(3) by simp
  then have reach: "dreachable s'" "dreachable t"
    using assms(1,4) by (blast intro: dreachable_step dispatching.reachable_steps)+
  have "dstep\<^sup>*\<^sup>* s t" using run assms(4) by (rule converse_rtranclp_into_rtranclp)
  then have made: "made s \<le> made t" by (rule made_grows)
  show ?thesis
  proof (cases "pending (disp s) ?id")
    case None
    then have "\<not> success response" "d = disp s'" "s' = s"
      using assms(2,3) by (auto simp: RespondToCommand_answer answer_refused)
    moreover have "results (disp s) c \<noteq> None" if "call_id c = ?id" "entered (phase s c)" for c
      using keptD(2) [OF reachable_parts(7) [OF assms(1)] _ that(2)] made assms(5) None that(1) by auto
    ultimately show ?thesis by blast
  next
    case (Some c0)
    note entry = entriesD [OF reachable_parts(2) [OF assms(1)] Some]
    have ok: "success response" "d = disp s'" and set: "results (disp s') c0 = Some ?st"
      using assms(2,3) Some by (auto simp: RespondToCommand_answer answer_accepted fulfill_def erase_pending_def)
    have kept: "results (disp t) c0 = Some ?st" by (rule results_kept [OF assms(4) reach(1) set])
    have "phase s c0 \<noteq> Idle" using entry by auto
    then have c0: "c0 < made s" by (rule numbering_made [OF reachable_parts(1) [OF assms(1)]])
    have own: "c' = c0" if "call_id c' = ?id" "c' < made t" for c'
      using call_id_inj [of c' c0] that entry c0 made assms(5) by simp
    have "status \<in> {?st, TIMEOUT, DOWNSTREAM_FAIL, NOT_SUPPORTED}" if "phase t c0 = Returned status" for status
      using reachable_parts(4) [OF reach(2)] that kept unfolding returns_def by fastforce
    moreover have "pending (disp t) ?id = None"
    proof (cases "pending (disp t) ?id")
      case (Some c1)
      note late = entriesD [OF reachable_parts(2) [OF reach(2)] Some]
      then have "phase t c1 \<noteq> Idle" by auto
      then have "c1 = c0"
        using late numbering_made [OF reachable_parts(1) [OF reach(2)]] by (intro own) auto
      with late kept show ?thesis by simp
    qed
    then have "\<not> success (fst (RespondToCommand again (disp t)))" if "response_command_id again = ?id" for again
      using that by (simp add: RespondToCommand_answer answer_refused)
    moreover have "c = c0" if "call_id c = ?id" "c < made s" using own [of c] that made by simp
    ultimately have "(\<forall>status. phase t c = Returned status \<longrightarrow>
          status \<in> {?st, TIMEOUT, DOWNSTREAM_FAIL, NOT_SUPPORTED}) \<and>
        (\<forall>again. response_command_id again = ?id \<longrightarrow> \<not> success (fst (RespondToCommand again (disp t))))"
      if "call_id c = ?id" "c < made s" using that by blast
    moreover have "\<exists>c. call_id c = ?id \<and> entered (phase s c) \<and> results (disp s) c = None"
      using entry by (intro exI [of _ c0]) simp
    ultimately show ?thesis using ok by simp
  qed
qed

definition awaited_run :: "action list" where
  "awaited_run =
     [Open_stream 7, Begin empty_CommandRequest, Register 0, Enter_writer 0, Finish_write 0 (Wrote True)]"

theorem RespondToCommand_once_witness:
  "phase (run_from_start (awaited_run @ [Answer 1 LOCAL, Get 0])) 0 = Returned LOCAL \<and>
   \<not> success (fst (RespondToCommand \<lparr>response_command_id = 1, response_status = 0\<rparr>
      (disp (run_from_start (awaited_run @ [Answer 1 LOCAL, Get 0])))))"
proof -
  let ?s = "run_from_start awaited_run" and ?r = "\<lparr>response_command_id = 1, response_status = 7\<rparr>"
  let ?t = "run_from_start (awaited_run @ [Answer 1 LOCAL, Get 0])"
  define s' where "s' = snd (answer (response_command_id ?r) (toCommandStatus (response_status ?r)) ?s)"
  have local: "toCommandStatus 7 = LOCAL" by (simp add: toCommandStatus_def command_result_values)
  have reach: "dreachable ?s" by (rule run_reachable) (simp add: awaited_run_def run_simps)
  have "perform (Get 0) s' = Some ?t"
    by (simp add: s'_def local awaited_run_def run_simps)
  then have steps: "dstep\<^sup>*\<^sup>* s' ?t" by (blast intro: dstep_perform)
  obtain response d where resp: "RespondToCommand ?r (disp ?s) = (response, d)" by fastforce
  have facts: "made ?t \<le> 2 ^ 64" "phase ?t 0 = Returned LOCAL" "call_id 0 = 1" "0 < made ?s"
    "entered (phase ?s 0)" "results (disp ?s) 0 = None"
    by (simp_all add: awaited_run_def run_simps call_id_def)
  from RespondToCommand_once [OF reach resp s'_def steps facts(1), of 0] facts
  show ?thesis by auto
qed

lemma poll_loop_least:
  assumes "cancelled (k + n)" and "\<forall>j < n. \<not> cancelled (k + j)"
  shows "poll_loop cancelled others k d = Some (fold others [k..<k + n] d)"
  using assms
proof (induction n arbitrary: k d)
  case 0
  then show ?case by (simp add: poll_loop.simps)
next
  case (Suc n)
  have "\<not> cancelled k" using Suc.prems(2) by (metis add_0_right zero_less_Suc)
  moreover have "\<forall>j < n. \<not> cancelled (Suc k + j)" using Suc.prems(2) by auto
  then have "poll_loop cancelled others (Suc k) (others k d) =
      Some (fold others [Suc k..<Suc k + n] (others k d))"
    using Suc.prems(1) by (intro Suc.IH) simp_all
  moreover have "[k..<k + Suc n] = k # [Suc k..<Suc k + n]" by (simp add: upt_rec)
  ultimately show ?case by (simp add: poll_loop.simps [of cancelled others k])
qed

lemma poll_loop_returns:
  assumes "poll_loop cancelled others k d = Some d'"
  shows "\<exists>n. cancelled (k + n)"
proof (rule poll_loop.raw_induct [where P = "\<lambda>cancelled others k d d'. \<exists>n. cancelled (k + n)",
      OF _ assms])
  fix loop :: "(nat \<Rightarrow> bool) \<Rightarrow> (nat \<Rightarrow> dispatcher \<Rightarrow> dispatcher) \<Rightarrow> nat \<Rightarrow> dispatcher \<Rightarrow> dispatcher option"
    and cancelled :: "nat \<Rightarrow> bool" and others k d d'
  assume IH: "\<And>cancelled others k d d'. loop cancelled others k d = Some d' \<Longrightarrow> \<exists>n. cancelled (k + n)"
    and step: "(if cancelled k then Some d else loop cancelled others (Suc k) (others k d)) = Some d'"
  show "\<exists>n. cancelled (k + n)"
  proof (cases "cancelled k")
    case True
    then show ?thesis by (intro exI [of _ 0]) simp
  next
    case False
    with step have "loop cancelled others (Suc k) (others k d) = Some d'" by simp
    from IH [OF this] obtain n where "cancelled (Suc k + n)" by blast
    then show ?thesis by (intro exI [of _ "Suc n"]) simp
  qed
qed

text \<open>
  C39: \<open>StreamCommands\<close> returns exactly when the call is cancelled at some poll, and then after the
  first one that sees it, the \<open>n\<close>-th: what the other threads did during the \<open>n\<close> sleeps before has
  happened to the dispatcher in which the stream was registered, and of that state the call changes
  the registered writer alone: its own is gone, while a writer that another stream registered
  meanwhile is kept, and so is the absence of one.
\<close>

theorem StreamCommands_returns:
  "((\<forall>n. \<not> cancelled n) \<longrightarrow> StreamCommands cancelled others w d = None) \<and>
   (cancelled n \<and> (\<forall>j < n. \<not> cancelled j) \<longrightarrow>
      (let seen = fold others [0..<n] (d\<lparr>active_writer := Some w\<rparr>)
       in StreamCommands cancelled others w d =
            Some (if active_writer seen = Some w then seen\<lparr>active_writer := None\<rparr> else seen)))"
proof (intro conjI impI)
  let ?d = "d\<lparr>active_writer := Some w\<rparr>"
  assume "\<forall>n. \<not> cancelled n"
  then have "poll_loop cancelled others 0 ?d = None"
    using poll_loop_returns [of cancelled others 0 ?d] by (cases "poll_loop cancelled others 0 ?d") auto
  then show "StreamCommands cancelled others w d = None"
    by (simp add: StreamCommands_def registerWriter_def)
next
  assume "cancelled n \<and> (\<forall>j < n. \<not> cancelled j)"
  then show "let seen = fold others [0..<n] (d\<lparr>active_writer := Some w\<rparr>)
       in StreamCommands cancelled others w d =
            Some (if active_writer seen = Some w then seen\<lparr>active_writer := None\<rparr> else seen)"
    using poll_loop_least [of cancelled 0 n others "d\<lparr>active_writer := Some w\<rparr>"]
    by (simp add: StreamCommands_def registerWriter_def Let_def destroy_token_def release_def)
qed

text \<open>Cancelled at the third poll, after another stream took over: the writer of that one stays.\<close>

theorem StreamCommands_returns_witness:
  "\<exists>d'. StreamCommands (\<lambda>k. k = 2) (\<lambda>k. snd \<circ> registerWriter 9) 4 new_dispatcher = Some d' \<and>
     active_writer d' = Some 9"
proof -
  have "(\<lambda>k. k = (2 :: nat)) 2 \<and> (\<forall>j < 2. \<not> (\<lambda>k. k = (2 :: nat)) j)" by simp
  moreover have "[0..<2] = [0, 1 :: nat]" by (simp add: upt_rec)
  ultimately show ?thesis
    using StreamCommands_returns [of "\<lambda>k. k = 2" "\<lambda>k. snd \<circ> registerWriter 9" 4 new_dispatcher 2]
    by (simp add: Let_def registerWriter_def)
qed

lemma add_cases:
  "m n = None \<Longrightarrow> add n address m = m(n \<mapsto> address)"
  "m n = Some old \<Longrightarrow> add n address m = m"
  by (simp_all add: add_def)

lemma resolve_add:
  "resolve name (fold (\<lambda>(n, address). add n address) names m) =
     (case m name of Some address \<Rightarrow> Some address | None \<Rightarrow> map_of names name)"
proof (induction names arbitrary: m)
  case (Cons e names)
  obtain n address where e: "e = (n, address)" by (cases e)
  show ?case
  proof (cases "m n")
    case None
    define m' where "m' = m(n \<mapsto> address)"
    have "fold (\<lambda>(n, address). add n address) (e # names) m =
        fold (\<lambda>(n, address). add n address) names m'"
      using None by (simp add: e add_cases m'_def)
    moreover have "m' name = (if name = n then Some address else m name)" by (simp add: m'_def)
    ultimately show ?thesis using Cons.IH [of m'] None by (auto simp: e split: option.splits)
  next
    case (Some old)
    then show ?thesis using Cons.IH [of m] by (auto simp: e add_cases split: option.split)
  qed
qed (simp add: resolve_def split: option.split)

text \<open>
  A point name resolves to the address it was first registered with; later registrations of
  the same name are ignored and an unregistered name resolves to nothing.
\<close>

lemma first_registration_wins:
  "resolve name (fold (\<lambda>(n, address). add n address) names Map.empty) = map_of names name"
  by (simp add: resolve_add)

end
