(* ===== verification/Lifecycle.thy ===== *)
theory Lifecycle
  imports ConfigLoader PointNaming
begin

text \<open>
  \<open>src/src/main.cpp\<close> and \<open>src/src/grpc/GrpcServer.cpp\<close>: how the process gets its
  configuration, and the threads of its life: the main thread, the thread that runs the gRPC
  server, and the signal handler.
\<close>

section \<open>Startup\<close>

text \<open>
  What happens before any component exists: an exception that leaves \<open>main\<close>, exit code 1 with a
  message, or a configuration to run with.
\<close>

datatype startup = Exit_with int string | Run AppConfig

definition configure ::
  "('j, 'x) json_api \<Rightarrow> (string \<Rightarrow> string option) \<Rightarrow> (string \<Rightarrow> string + 'j) \<Rightarrow> nat
     \<Rightarrow> (string \<Rightarrow> string option) \<Rightarrow> string list \<Rightarrow> ('x, startup) outcome" where
  "configure api read_file parse width getenv argv =
     and_then (load api read_file parse width getenv
         (if 2 \<le> length argv then Some (argv ! 1) else None))
       (\<lambda>cfg_result. case cfg_result of
          Inl e \<Rightarrow> Ret (Exit_with 1 (''Failed to load configuration: '' @ e @ [CHR 0x0A]))
        | Inr cfg \<Rightarrow>
            (case validatePointDatabase (point_database cfg) of
               Inl e \<Rightarrow> Ret (Exit_with 1 (''Failed to load configuration: '' @ e @ [CHR 0x0A]))
             | Inr u \<Rightarrow> Ret (Run cfg)))"

text \<open>
  The bridge never runs on a configuration it did not accept: it starts exactly when the
  configuration loads and its point database is valid, with that configuration; a load or
  validation error ends the process with code 1 and the error on stderr.
\<close>

theorem runs_only_valid_configuration:
  "(configure api read_file parse width getenv argv = Ret (Run cfg) \<longleftrightarrow>
      load api read_file parse width getenv (if 2 \<le> length argv then Some (argv ! 1) else None) =
        Ret (Inr cfg) \<and> validatePointDatabase (point_database cfg) = Inr ()) \<and>
   (configure api read_file parse width getenv argv = Ret (Exit_with code text) \<longrightarrow>
      code = 1 \<and> (\<exists>e. text = ''Failed to load configuration: '' @ e @ [CHR 0x0A]))"
  by (cases "load api read_file parse width getenv
        (if 2 \<le> length argv then Some (argv ! 1) else None)")
    (auto simp: configure_def split: sum.splits)

theorem runs_only_valid_configuration_witness:
  "configure sample_api (\<lambda>f. None) (\<lambda>t. Inl t) 64 (\<lambda>name. None) [''dnp3-bridge''] =
     Ret (Run default_AppConfig) \<and> default_AppConfig = default_AppConfig"
proof -
  have "load sample_api (\<lambda>f. None) (\<lambda>t. Inl t) 64 (\<lambda>name. None) None = Ret (Inr default_AppConfig)"
    by code_simp
  moreover have "validatePointDatabase (point_database default_AppConfig) = Inr ()" by code_simp
  ultimately show ?thesis
    using runs_only_valid_configuration [of sample_api "\<lambda>f. None" "\<lambda>t. Inl t" 64 "\<lambda>name. None"
        "[''dnp3-bridge'']" default_AppConfig 1 "[]"]
    by simp
qed

section \<open>Threads of the process\<close>

text \<open>
  The main thread between the launch of the server thread and its end. \<open>Joining_server\<close> is the
  destructor of \<open>grpc_thread\<close>, which runs before the destructors of the components.
\<close>

datatype main_pc =
  Polling | Stopping_server | Stopping_bridge | Stopping_outstation | Joining_server | Exited_0

text \<open>\<open>Building\<close> is up to the assignment of \<open>server_\<close>; \<open>Waiting\<close> is inside \<open>Wait\<close>.\<close>

datatype server_pc = Building | Waiting | Returned_from_start

record process =
  main_at :: main_pc
  server_at :: server_pc
  shutdown_requested :: bool
  server_set :: bool
  server_shut :: bool

definition launched :: process where
  "launched =
     \<lparr>main_at = Polling, server_at = Building, shutdown_requested = False, server_set = False,
      server_shut = False\<rparr>"

inductive pstep :: "process \<Rightarrow> process \<Rightarrow> bool" where
  signal_handler: "pstep p (p\<lparr>shutdown_requested := True\<rparr>)"
| build_and_start:
    "server_at p = Building \<Longrightarrow> pstep p (p\<lparr>server_at := Waiting, server_set := True\<rparr>)"
| build_fails:
    "server_at p = Building \<Longrightarrow> pstep p (p\<lparr>server_at := Returned_from_start\<rparr>)"
| wait_returns:
    "server_at p = Waiting \<Longrightarrow> server_shut p \<Longrightarrow> pstep p (p\<lparr>server_at := Returned_from_start\<rparr>)"
| see_request:
    "main_at p = Polling \<Longrightarrow> shutdown_requested p \<Longrightarrow> pstep p (p\<lparr>main_at := Stopping_server\<rparr>)"
| server_stop:
    "main_at p = Stopping_server \<Longrightarrow>
       pstep p (p\<lparr>main_at := Stopping_bridge, server_shut := server_set p \<or> server_shut p\<rparr>)"
| bridge_stop:
    "main_at p = Stopping_bridge \<Longrightarrow> pstep p (p\<lparr>main_at := Stopping_outstation\<rparr>)"
| outstation_shutdown:
    "main_at p = Stopping_outstation \<Longrightarrow> pstep p (p\<lparr>main_at := Joining_server\<rparr>)"
| join_server:
    "main_at p = Joining_server \<Longrightarrow> server_at p = Returned_from_start \<Longrightarrow>
       pstep p (p\<lparr>main_at := Exited_0\<rparr>)"

inductive_cases pstepE: "pstep p q"

inductive preachable :: "process \<Rightarrow> bool" where
  preachable_initial: "preachable launched"
| preachable_step: "preachable p \<Longrightarrow> pstep p q \<Longrightarrow> preachable q"

lemma preachable_least:
  assumes "preachable p" and "\<And>p. p = launched \<Longrightarrow> P p"
    and "\<And>p q. preachable p \<Longrightarrow> P p \<Longrightarrow> pstep p q \<Longrightarrow> P q"
  shows "P p"
  using assms(1)
proof (induction rule: preachable.induct)
  case preachable_initial
  show ?case by (rule assms(2)) (rule refl)
next
  case (preachable_step p q)
  show ?case by (rule assms(3)) (fact preachable_step)+
qed

interpretation processes: transition_system "\<lambda>p. p = launched" pstep preachable
  by unfold_locales (fact preachable_least | blast intro: preachable.intros)+

text \<open>The server was set or had failed by the time \<open>stop\<close> ran, and \<open>stop\<close> saw it.\<close>

fun before_stop :: "main_pc \<Rightarrow> bool" where
  "before_stop Polling = True"
| "before_stop Stopping_server = True"
| "before_stop Stopping_bridge = False"
| "before_stop Stopping_outstation = False"
| "before_stop Joining_server = False"
| "before_stop Exited_0 = False"

definition orderly :: "process \<Rightarrow> bool" where
  "orderly p \<longleftrightarrow>
     (server_at p = Waiting \<longrightarrow> server_set p) \<and>
     (main_at p = Exited_0 \<longrightarrow> server_at p = Returned_from_start) \<and>
     (\<not> before_stop (main_at p) \<longrightarrow> shutdown_requested p) \<and>
     (main_at p = Stopping_server \<longrightarrow> shutdown_requested p)"

lemma preachable_orderly: "preachable p \<Longrightarrow> orderly p"
proof (rule processes.invariant [where P = orderly])
  fix p q
  assume "pstep p q" and "orderly p"
  then show "orderly q" by cases (auto simp: orderly_def)
qed (auto simp: orderly_def launched_def)

text \<open>The server thread is past \<open>BuildAndStart\<close>, and a \<open>stop\<close> that ran saw the server.\<close>

definition settled :: "process \<Rightarrow> bool" where
  "settled p \<longleftrightarrow>
     server_at p \<noteq> Building \<and>
     (server_at p = Waiting \<and> \<not> before_stop (main_at p) \<longrightarrow> server_shut p)"

lemma settled_stays:
  assumes "preachable p" and "pstep p q" and "settled p"
  shows "settled q"
  using assms(2,3) preachable_orderly [OF assms(1)]
  by cases (auto simp: settled_def orderly_def)

text \<open>The steps left until the process is gone.\<close>

fun main_rank :: "main_pc \<Rightarrow> nat" where
  "main_rank Polling = 5"
| "main_rank Stopping_server = 4"
| "main_rank Stopping_bridge = 3"
| "main_rank Stopping_outstation = 2"
| "main_rank Joining_server = 1"
| "main_rank Exited_0 = 0"

fun server_rank :: "server_pc \<Rightarrow> nat" where
  "server_rank Building = 2"
| "server_rank Waiting = 1"
| "server_rank Returned_from_start = 0"

definition process_rank :: "process \<Rightarrow> nat" where
  "process_rank p = main_rank (main_at p) + server_rank (server_at p)"

lemma settled_decreases:
  assumes "pstep p q" and "q \<noteq> p" and "shutdown_requested p"
  shows "process_rank q < process_rank p \<and> shutdown_requested q"
  using assms by cases (auto simp: process_rank_def)

lemma settled_progress:
  assumes "preachable p" and "settled p" and "shutdown_requested p" and "main_at p \<noteq> Exited_0"
  shows "\<exists>q. pstep p q \<and> q \<noteq> p"
proof -
  have change: "\<exists>q. pstep p q \<and> q \<noteq> p" if "pstep p q" "main_at q \<noteq> main_at p" for q
    using that by auto
  show ?thesis
  proof (cases "main_at p")
    case Polling
    from see_request [OF this assms(3)] show ?thesis by (rule change) (simp add: Polling)
  next
    case Stopping_server
    from server_stop [OF this] show ?thesis by (rule change) (simp add: Stopping_server)
  next
    case Stopping_bridge
    from bridge_stop [OF this] show ?thesis by (rule change) (simp add: Stopping_bridge)
  next
    case Stopping_outstation
    from outstation_shutdown [OF this] show ?thesis by (rule change) (simp add: Stopping_outstation)
  next
    case Joining_server
    show ?thesis
    proof (cases "server_at p = Returned_from_start")
      case True
      from join_server [OF Joining_server this] show ?thesis
        by (rule change) (simp add: Joining_server)
    next
      case False
      then have "server_at p = Waiting" "server_shut p"
        using assms(2) Joining_server by (auto simp: settled_def intro: server_pc.exhaust)
      from wait_returns [OF this] this(1) show ?thesis by (metis select_convs(2) server_pc.distinct(5) surjective update_convs(2))
    qed
  qed (use assms(4) in simp)
qed

text \<open>
  An orderly shutdown completes: once the server thread is past \<open>BuildAndStart\<close> (with or
  without success) before main calls \<open>stop\<close>, a requested shutdown cannot hang: as long as main
  has not left with code 0 some thread can step, each step that changes anything brings the end
  nearer (at most six are left), and the process stays orderly.
\<close>

theorem orderly_shutdown:
  assumes "preachable p" and "settled p" and "shutdown_requested p"
  shows "(main_at p \<noteq> Exited_0 \<longrightarrow> (\<exists>q. pstep p q \<and> q \<noteq> p)) \<and>
         (\<forall>q. pstep p q \<and> q \<noteq> p \<longrightarrow>
            process_rank q < process_rank p \<and> preachable q \<and> settled q \<and> shutdown_requested q) \<and>
         process_rank p \<le> 6"
proof (intro conjI impI allI)
  show "\<exists>q. pstep p q \<and> q \<noteq> p" if "main_at p \<noteq> Exited_0"
    using assms that by (rule settled_progress)
  show "process_rank p \<le> 6"
    using assms(2) by (cases "main_at p"; cases "server_at p") (simp_all add: process_rank_def settled_def)
  fix q assume q: "pstep p q \<and> q \<noteq> p"
  then show "process_rank q < process_rank p" "shutdown_requested q"
    using settled_decreases assms(3) by blast+
  show "preachable q" using assms(1) q by (blast intro: preachable_step)
  show "settled q" using assms(1) conjunct1 [OF q] assms(2) by (rule settled_stays)
qed

theorem orderly_shutdown_witness:
  "\<exists>p q. main_at p = Polling \<and> server_at p = Waiting \<and> pstep p q \<and> q \<noteq> p"
proof -
  define built where "built = launched\<lparr>server_at := Waiting, server_set := True\<rparr>"
  define p where "p = built\<lparr>shutdown_requested := True\<rparr>"
  have "preachable built" unfolding built_def
    by (rule preachable_step [OF preachable_initial]) (rule build_and_start, simp add: launched_def)
  then have reach: "preachable p" unfolding p_def by (rule preachable_step) (rule signal_handler)
  have "settled p" "shutdown_requested p" "main_at p = Polling" "server_at p = Waiting"
    by (simp_all add: p_def built_def launched_def settled_def)
  with orderly_shutdown [OF reach] show ?thesis by auto
qed

text \<open>
  A shutdown that overtakes the start of the server hangs: when the signal is handled before
  \<open>server_\<close> is assigned, \<open>stop\<close> finds no server, the server then starts and waits forever, and
  main waits for its thread; no step is left that changes anything.
\<close>

theorem early_shutdown_hangs:
  "\<exists>p. preachable p \<and> shutdown_requested p \<and> main_at p = Joining_server \<and>
     server_at p = Waiting \<and> \<not> (\<exists>q. pstep p q \<and> q \<noteq> p)"
proof -
  let ?p1 = "launched\<lparr>shutdown_requested := True\<rparr>"
  let ?p2 = "?p1\<lparr>main_at := Stopping_server\<rparr>"
  let ?p3 = "?p2\<lparr>main_at := Stopping_bridge, server_shut := server_set ?p2 \<or> server_shut ?p2\<rparr>"
  let ?p4 = "?p3\<lparr>main_at := Stopping_outstation\<rparr>"
  let ?p5 = "?p4\<lparr>main_at := Joining_server\<rparr>"
  let ?p6 = "?p5\<lparr>server_at := Waiting, server_set := True\<rparr>"
  have "preachable ?p1" by (rule preachable_step [OF preachable_initial signal_handler])
  then have "preachable ?p2" by (rule preachable_step) (rule see_request, simp_all add: launched_def)
  then have "preachable ?p3" by (rule preachable_step) (rule server_stop, simp)
  then have "preachable ?p4" by (rule preachable_step) (rule bridge_stop, simp)
  then have "preachable ?p5" by (rule preachable_step) (rule outstation_shutdown, simp)
  then have reach: "preachable ?p6"
    by (rule preachable_step) (rule build_and_start, simp add: launched_def)
  have "q = ?p6" if "pstep ?p6 q" for q
    using that by cases (simp_all add: launched_def)
  then have "\<not> (\<exists>q. pstep ?p6 q \<and> q \<noteq> ?p6)" by blast
  with reach show ?thesis by (intro exI [of _ ?p6]) simp
qed

end
