(* ===== verification/Startup.thy ===== *)
theory Startup
  imports Lifecycle BridgeService
begin

text \<open>
  The middle of \<open>main\<close> in \<open>src/src/main.cpp\<close>: the logger, the lines that report the
  configuration, and the construction and start of the components. What spdlog does with the name
  of a level and with the file of a rotating sink is an argument, and so is the width of
  \<open>std::size_t\<close> (64 on amd64, 32 on armhf).
\<close>

section \<open>The logger\<close>

datatype sink = Stderr_sink | Rotating_sink string nat u32

record 'l logger =
  logger_name :: string
  sinks :: "sink list"
  level :: 'l
  pattern :: string

definition max_log_size :: "nat \<Rightarrow> u32 \<Rightarrow> nat" where
  "max_log_size width mb =
     (unat mb mod 2 ^ width * 1024 mod 2 ^ width) * 1024 mod 2 ^ width"

text \<open>\<open>open_file\<close> is the constructor of the file sink: it may throw.\<close>

definition make_sinks ::
  "nat \<Rightarrow> (string \<Rightarrow> nat \<Rightarrow> u32 \<Rightarrow> 'x option) \<Rightarrow> AppConfig \<Rightarrow> ('x, sink list) outcome" where
  "make_sinks width open_file cfg =
     (if log_file cfg = [] then Ret [Stderr_sink]
      else
        let max_size = max_log_size width (log_max_size_mb cfg)
        in case open_file (log_file cfg) max_size (log_max_files cfg) of
             Some e \<Rightarrow> Throw e
           | None \<Rightarrow> Ret [Stderr_sink, Rotating_sink (log_file cfg) max_size (log_max_files cfg)])"

definition make_logger ::
  "nat \<Rightarrow> (string \<Rightarrow> nat \<Rightarrow> u32 \<Rightarrow> 'x option) \<Rightarrow> (string \<Rightarrow> 'l) \<Rightarrow> AppConfig
     \<Rightarrow> ('x, 'l logger) outcome" where
  "make_logger width open_file from_str cfg =
     and_then (make_sinks width open_file cfg)
       (\<lambda>ss. Ret \<lparr>logger_name = ''dnp3-bridge'', sinks = ss, level = from_str (log_level cfg),
                  pattern = ''[%Y-%m-%d %H:%M:%S.%e] [%l] %v''\<rparr>)"

section \<open>The report of the configuration\<close>

datatype log_call = Info string | Warn string

definition config_lines :: "string \<Rightarrow> string option \<Rightarrow> AppConfig \<Rightarrow> log_call list" where
  "config_lines version config_path cfg =
     [Info (''dnp3-bridge v'' @ version @ '' starting''),
      (case config_path of
         Some path \<Rightarrow> Info (''Config file: '' @ path)
       | None \<Rightarrow> Warn
           (''No config file argument -- using built-in defaults plus environment '' @
            ''overrides; DNP3 point_database (classes, deadbands, variations) is JSON-only '' @
            ''and cannot be set via environment'')),
      Info (''gRPC address: '' @ grpc_listen_address cfg),
      Info (''DNP3 endpoint: '' @ dnp3_channel_host cfg @ '':'' @ show_nat (unat (dnp3_channel_port cfg))),
      Info (''DNP3 addresses: local='' @ show_nat (unat (dnp3_local_address cfg)) @
            '', remote='' @ show_nat (unat (dnp3_remote_address cfg))),
      Info (''Command timeout: '' @ show_nat (unat (command_timeout_ms cfg)) @ ''ms''),
      Info (''Log level: '' @ log_level cfg)] @
     (if log_file cfg = [] then []
      else [Info (''Log file: '' @ log_file cfg @ '' (max '' @ show_nat (unat (log_max_size_mb cfg)) @
              ''MB, '' @ show_nat (unat (log_max_files cfg)) @ '' rotated files)'')])"

section \<open>The components\<close>

text \<open>
  Dispatcher, outstation, bridge and service in the order of construction; the bridge refers to
  the outstation, which is started before the bridge is.
\<close>

record components =
  the_dispatcher :: dispatcher
  the_bridge :: bridge
  the_service :: BridgeServiceImpl

definition construct :: "AppConfig \<Rightarrow> components" where
  "construct cfg =
     \<lparr>the_dispatcher = new_dispatcher, the_bridge = new_bridge (new_OutstationManager cfg),
      the_service = \<lparr>last_update_ms = 0\<rparr>\<rparr>"

definition start_outstation :: "library_defaults \<Rightarrow> components \<Rightarrow> components" where
  "start_outstation lib c =
     c\<lparr>the_bridge := (the_bridge c)\<lparr>out := start lib (out (the_bridge c))\<rparr>\<rparr>"

definition start_outstation_on ::
  "'x stack_library \<Rightarrow> library_defaults \<Rightarrow> components \<Rightarrow> ('x, components) outcome" where
  "start_outstation_on net lib c =
     (case start_stack net lib (out (the_bridge c)) of
        (Throw e, m) \<Rightarrow> Throw e
      | (Ret u, m) \<Rightarrow> Ret (c\<lparr>the_bridge := (the_bridge c)\<lparr>out := m\<rparr>\<rparr>))"

definition start_bridge :: "components \<Rightarrow> components option" where
  "start_bridge c =
     map_option (\<lambda>b. c\<lparr>the_bridge := b\<rparr>) (Option.bind (start_flag (the_bridge c)) launch_thread)"

definition boot :: "library_defaults \<Rightarrow> AppConfig \<Rightarrow> components option" where
  "boot lib cfg = start_bridge (start_outstation lib (construct cfg))"

text \<open>\<open>boot\<close> is the start when opendnp3 accepts, \<open>boot_on\<close> with the exceptions of opendnp3.\<close>

definition boot_on ::
  "'x stack_library \<Rightarrow> library_defaults \<Rightarrow> AppConfig \<Rightarrow> ('x, components) outcome" where
  "boot_on net lib cfg =
     and_then (start_outstation_on net lib (construct cfg)) (\<lambda>c. Ret (the (start_bridge c)))"

definition stack_refused :: "'x stack_library \<Rightarrow> library_defaults \<Rightarrow> AppConfig \<Rightarrow> 'x option" where
  "stack_refused net lib cfg =
     (case AddTCPServer net (dnp3_channel_host cfg) (dnp3_channel_port cfg) of
        Some e \<Rightarrow> Some e
      | None \<Rightarrow> AddOutstation net (stack_config cfg (start_database lib cfg)))"

lemma boot_on_cases:
  "boot_on net lib cfg =
     (case stack_refused net lib cfg of Some e \<Rightarrow> Throw e | None \<Rightarrow> Ret (the (boot lib cfg)))"
  by (auto simp: boot_on_def boot_def start_outstation_on_def start_outstation_def start_stack_def
      stack_refused_def construct_def new_bridge_def new_OutstationManager_def start_def Let_def
      split: option.split)

section \<open>The size limit of the log file\<close>

lemma max_log_size_widths:
  "max_log_size 64 mb = unat mb * 1048576"
  "max_log_size 32 mb = unat mb mod 4096 * 1048576"
proof -
  have lt: "unat mb < 4294967296" using unsigned_less [of mb, where ?'a = nat] by simp
  then show "max_log_size 64 mb = unat mb * 1048576" by (simp add: max_log_size_def)
  have "unat mb * 1048576 mod 4294967296 = unat mb mod 4096 * 1048576"
    using mult_mod_left [of "unat mb" 4096 1048576] by (simp add: mult.commute)
  then show "max_log_size 32 mb = unat mb mod 4096 * 1048576"
    using lt by (simp add: max_log_size_def mod_mult_left_eq mult.assoc)
qed

text \<open>
  The size of the log file is checked nowhere before spdlog, which refuses the size zero by an
  exception: with a log file configured, the size 0 ends \<open>main\<close> by that exception, and on a
  32-bit machine so does every multiple of 4096 megabytes, because the product is reduced. On a
  64-bit machine the size given is always the one configured.
\<close>

theorem zero_log_size_aborts:
  assumes "log_file cfg \<noteq> []" and "open_file (log_file cfg) 0 (log_max_files cfg) = Some e"
    and "log_max_size_mb cfg = 0 \<and> width = 64 \<or> unat (log_max_size_mb cfg) mod 4096 = 0 \<and> width = 32"
  shows "make_logger width open_file from_str cfg = Throw e \<and>
    max_log_size 64 mb = unat mb * 1048576"
  using assms by (auto simp: make_logger_def make_sinks_def max_log_size_widths)

theorem zero_log_size_aborts_witness:
  "make_logger 32 (\<lambda>f size n. if size = 0 then Some ''zero'' else None) (\<lambda>s. s)
     (default_AppConfig\<lparr>log_file := ''a.log'', log_max_size_mb := 4096\<rparr>) = Throw ''zero'' \<and>
   max_log_size 64 4096 = 4294967296"
proof -
  let ?cfg = "default_AppConfig\<lparr>log_file := ''a.log'', log_max_size_mb := 4096\<rparr>"
  let ?open = "\<lambda>f size n :: u32. if size = (0 :: nat) then Some ''zero'' else None"
  have "log_file ?cfg \<noteq> []" "?open (log_file ?cfg) 0 (log_max_files ?cfg) = Some ''zero''"
    "log_max_size_mb ?cfg = 0 \<and> (32 :: nat) = 64 \<or>
       unat (log_max_size_mb ?cfg) mod 4096 = 0 \<and> (32 :: nat) = 32" by simp_all
  from zero_log_size_aborts [where open_file = ?open, OF this, of "\<lambda>s. s" 4096] show ?thesis by simp
qed

section \<open>The state the service starts in\<close>

text \<open>
  Starting the components always succeeds and leaves the process ready: the outstation is
  enabled with the stack configuration computed from the settings before any update can reach it,
  the bridge is a reachable one over that outstation with its flush thread about to test the
  queue, and dispatcher and service are in their initial states.
\<close>

theorem boot_ready:
  "\<exists>c. boot lib cfg = Some c \<and> the_dispatcher c = new_dispatcher \<and>
     the_service c = \<lparr>last_update_ms = 0\<rparr> \<and>
     breachable quality (start lib (new_OutstationManager cfg)) (the_bridge c) \<and>
     running (the_bridge c) \<and> flush (the_bridge c) = Checking \<and> queue (the_bridge c) = [] \<and>
     outstation (out (the_bridge c)) = Some (stack_config cfg (start_database lib cfg))"
proof -
  let ?m = "start lib (new_OutstationManager cfg)"
  let ?b = "(new_bridge ?m)\<lparr>running := True, flush := Checking\<rparr>"
  have "bridge_run quality [Start, Launch] (new_bridge ?m) = Some ?b"
    by (simp add: bridge_ops new_bridge_def)
  then have "breachable quality ?m ?b" by (rule breachable_run [OF breachable_initial])
  moreover have "boot lib cfg = Some ((construct cfg)\<lparr>the_bridge := ?b\<rparr>)"
    by (simp add: boot_def start_bridge_def start_outstation_def construct_def bridge_ops new_bridge_def)
  ultimately show ?thesis
    by (simp add: construct_def new_bridge_def start_def Let_def new_OutstationManager_def)
qed

end
