(* ===== verification/Service.thy ===== *)
theory Service
  imports Startup DispatcherProgress "HOL-Library.Multiset"
begin

text \<open>
  The running service, from the launch of the server thread to the end of \<open>main\<close>: the process
  of \<open>Lifecycle\<close>, the bridge with its outstation, the threads of the dispatcher, and the gRPC
  handlers in progress, as one step relation. A step is one step of one of them; the steps of
  \<open>main\<close> that stop a component are those of that component. A command is a call of \<open>Operate\<close> by
  opendnp3, which begins a call of \<open>dispatch\<close> with the request it builds.

  \<open>OutstationManager::shutdown\<close> is two steps: \<open>main\<close> first clears the flag and drops its references to
  outstation and channel, then calls \<open>DNP3Manager::Shutdown\<close>. In between opendnp3 is still running:
  channel events and commands may arrive although \<open>outstation_\<close> is null already. The assignments of
  the first step are one: of the threads that are left none uses the references, and a channel
  event among them, which only sets the flag, has the effect of one after them.

  Three facts about the libraries enter as conditions of steps: a gRPC server takes calls from
  the assignment of \<open>server_\<close> until it is shut down, \<open>Server::Shutdown\<close> returns when no handler is
  left, and \<open>DNP3Manager::Shutdown\<close> returns when no callback is running.
\<close>

section \<open>State\<close>

text \<open>
  A call of \<open>UpdatePoints\<close> in progress: the updates it has queued, those to come, and whether it
  is between the lock section of \<open>applyUpdate\<close> and \<open>notify_one\<close>.
\<close>

record handler =
  pushed :: "PointUpdate list"
  todo :: "PointUpdate list"
  notifying :: bool

text \<open>
  \<open>asked\<close> records the commands and points with which opendnp3 has called \<open>Operate\<close>, in the order of
  the calls of \<open>dispatch\<close>, \<open>acked\<close> the updates whose request was answered, \<open>replies\<close> the calls of
  \<open>RespondToCommand\<close>; no step reads them.
\<close>

record service =
  proc :: process
  flow :: bridge
  cmds :: threads
  asked :: "(command \<times> u16) list"
  impl :: BridgeServiceImpl
  handlers :: "handler multiset"
  acked :: "PointUpdate multiset"
  replies :: "CommandResponse list"

definition in_service :: "components \<Rightarrow> service" where
  "in_service c =
     \<lparr>proc = launched, flow = the_bridge c, cmds = idle_threads\<lparr>disp := the_dispatcher c\<rparr>,
      asked = [], impl = the_service c, handlers = {#}, acked = {#}, replies = []\<rparr>"

definition service_initial :: "library_defaults \<Rightarrow> AppConfig \<Rightarrow> service \<Rightarrow> bool" where
  "service_initial lib cfg s \<longleftrightarrow> boot lib cfg = Some (the (boot lib cfg)) \<and>
     s = in_service (the (boot lib cfg))"

section \<open>Steps\<close>

definition serving :: "process \<Rightarrow> bool" where
  "serving p \<longleftrightarrow> server_set p \<and> \<not> server_shut p"

text \<open>\<open>Operate\<close> up to the beginning of \<open>dispatch\<close>, which gets the request from it.\<close>

definition begin_operate :: "command \<Rightarrow> u16 \<Rightarrow> threads \<Rightarrow> threads" where
  "begin_operate cmd index t =
     snd (Operate (\<lambda>request t. (Ret SUCCESS :: (unit, CommandStatus) outcome, begin_dispatch request t))
       cmd index t)"

lemma begin_operate_request: "begin_operate cmd index t = begin_dispatch (request_of cmd index) t"
  by (simp add: begin_operate_def Operate_guarded guarded_def)

lemma begin_operate_dstep: "dstep t (begin_operate cmd index t)"
  using dstep_perform [of "Begin (request_of cmd index)" t] by (simp add: begin_operate_request)

definition replace_handler :: "handler \<Rightarrow> handler \<Rightarrow> service \<Rightarrow> service" where
  "replace_handler h h' s = s\<lparr>handlers := add_mset h' (handlers s - {#h#})\<rparr>"

definition map_out :: "(OutstationManager \<Rightarrow> OutstationManager) \<Rightarrow> bridge \<Rightarrow> bridge" where
  "map_out f b = b\<lparr>out := f (out b)\<rparr>"

text \<open>The positions from which a step of the main thread concerns the process alone.\<close>

fun main_alone :: "main_pc \<Rightarrow> bool" where
  "main_alone Polling = True"
| "main_alone Joining_server = True"
| "main_alone Stopping_server = False"
| "main_alone Stopping_bridge = False"
| "main_alone Stopping_outstation = False"
| "main_alone Exited_0 = False"

fun stopping :: "bridge_action \<Rightarrow> bool" where
  "stopping Stop = True"
| "stopping Notify_all = True"
| "stopping Join = True"
| "stopping (Push u) = False"
| "stopping Notify_one = False"
| "stopping Spurious_wakeup = False"
| "stopping Test = False"
| "stopping Deliver = False"
| "stopping Start = False"
| "stopping Launch = False"

inductive sstep :: "AnalogQuality \<Rightarrow> service \<Rightarrow> service \<Rightarrow> bool" for q where
  process_moves:
    "pstep (proc s) p \<Longrightarrow> main_at p = main_at (proc s) \<or> main_alone (main_at (proc s)) \<Longrightarrow>
       sstep q s (s\<lparr>proc := p\<rparr>)"
| server_stops:
    "main_at (proc s) = Stopping_server \<Longrightarrow>
       server_set (proc s) \<longrightarrow> handlers s = {#} \<and> streams (cmds s) = Map.empty \<Longrightarrow>
       sstep q s (s\<lparr>proc := (proc s)\<lparr>main_at := Stopping_bridge,
         server_shut := server_set (proc s) \<or> server_shut (proc s)\<rparr>\<rparr>)"
| bridge_stopping:
    "main_at (proc s) = Stopping_bridge \<Longrightarrow> stopping a \<Longrightarrow> bridge_perform q a (flow s) = Some b \<Longrightarrow>
       sstep q s (s\<lparr>flow := b\<rparr>)"
| bridge_stopped:
    "main_at (proc s) = Stopping_bridge \<Longrightarrow> control (flow s) = Outside \<Longrightarrow> \<not> running (flow s) \<Longrightarrow>
       sstep q s (s\<lparr>proc := (proc s)\<lparr>main_at := Stopping_outstation\<rparr>\<rparr>)"
| outstation_released:
    "main_at (proc s) = Stopping_outstation \<Longrightarrow> outstation (out (flow s)) \<noteq> None \<Longrightarrow>
       sstep q s (s\<lparr>flow := map_out release_outstation (flow s)\<rparr>)"
| manager_shuts_down:
    "main_at (proc s) = Stopping_outstation \<Longrightarrow> outstation (out (flow s)) = None \<Longrightarrow>
       manager (out (flow s)) \<longrightarrow> list_all (\<lambda>c. finished (phase (cmds s) c)) [0..<made (cmds s)] \<Longrightarrow>
       sstep q s (s\<lparr>proc := (proc s)\<lparr>main_at := Joining_server\<rparr>, flow := map_out stop_manager (flow s)\<rparr>)"
| channel_changes:
    "manager (out (flow s)) \<Longrightarrow>
       sstep q s (s\<lparr>flow := map_out (OnStateChange st) (flow s)\<rparr>)"
| flush_steps:
    "flushing a \<or> a = Spurious_wakeup \<Longrightarrow> bridge_perform q a (flow s) = Some b \<Longrightarrow>
       sstep q s (s\<lparr>flow := b\<rparr>)"
| request_arrives:
    "serving (proc s) \<Longrightarrow>
       sstep q s (s\<lparr>handlers := add_mset \<lparr>pushed = [], todo = updates_of r, notifying = False\<rparr>
         (handlers s)\<rparr>)"
| handler_pushes:
    "\<lparr>pushed = ps, todo = u # us, notifying = False\<rparr> \<in># handlers s \<Longrightarrow>
       sstep q s (replace_handler \<lparr>pushed = ps, todo = u # us, notifying = False\<rparr>
           \<lparr>pushed = ps @ [u], todo = us, notifying = True\<rparr> s
         \<lparr>flow := push_update u (flow s)\<rparr>)"
| handler_notifies:
    "\<lparr>pushed = ps, todo = us, notifying = True\<rparr> \<in># handlers s \<Longrightarrow>
       notify_one (flow s) = Some b \<Longrightarrow>
       sstep q s (replace_handler \<lparr>pushed = ps, todo = us, notifying = True\<rparr>
           \<lparr>pushed = ps, todo = us, notifying = False\<rparr> s\<lparr>flow := b\<rparr>)"
| handler_answers:
    "\<lparr>pushed = ps, todo = [], notifying = False\<rparr> \<in># handlers s \<Longrightarrow>
       sstep q s (s\<lparr>handlers := handlers s - {#\<lparr>pushed = ps, todo = [], notifying = False\<rparr>#},
         acked := acked s + mset ps, impl := (impl s)\<lparr>last_update_ms := now_ms\<rparr>\<rparr>)"
| command_arrives:
    "manager (out (flow s)) \<Longrightarrow>
       sstep q s (s\<lparr>cmds := begin_operate cmd index (cmds s), asked := asked s @ [(cmd, index)]\<rparr>)"
| command_steps:
    "internal a \<Longrightarrow> perform a (cmds s) = Some t \<Longrightarrow> sstep q s (s\<lparr>cmds := t\<rparr>)"
| client_responds:
    "serving (proc s) \<Longrightarrow>
       perform (Answer (response_command_id resp) (toCommandStatus (response_status resp))) (cmds s) =
         Some t \<Longrightarrow>
       sstep q s (s\<lparr>cmds := t, replies := replies s @ [resp]\<rparr>)"
| stream_opens:
    "serving (proc s) \<Longrightarrow> perform (Open_stream w) (cmds s) = Some t \<Longrightarrow> sstep q s (s\<lparr>cmds := t\<rparr>)"
| stream_closes:
    "perform (Close_stream w) (cmds s) = Some t \<Longrightarrow> sstep q s (s\<lparr>cmds := t\<rparr>)"

inductive_cases sstepE: "sstep q s t"

inductive sreachable :: "AnalogQuality \<Rightarrow> library_defaults \<Rightarrow> AppConfig \<Rightarrow> service \<Rightarrow> bool"
  for q lib cfg where
  sreachable_initial: "service_initial lib cfg s \<Longrightarrow> sreachable q lib cfg s"
| sreachable_step: "sreachable q lib cfg s \<Longrightarrow> sstep q s t \<Longrightarrow> sreachable q lib cfg t"

interpretation services: transition_system "service_initial lib cfg" "sstep q" "sreachable q lib cfg"
  for q lib cfg
proof unfold_locales
  fix s P
  assume "sreachable q lib cfg s" and "\<And>s. service_initial lib cfg s \<Longrightarrow> P s"
    and "\<And>s t. sreachable q lib cfg s \<Longrightarrow> P s \<Longrightarrow> sstep q s t \<Longrightarrow> P t"
  then show "P s" by (induction rule: sreachable.induct) blast+
qed (blast intro: sreachable.intros)+

section \<open>The components inside the service\<close>

lemma service_initial_fields:
  assumes "service_initial lib cfg s"
  shows "proc s = launched" "cmds s = idle_threads" "handlers s = {#}" "acked s = {#}"
    "running (flow s)" "flush (flow s) = Checking" "control (flow s) = Outside" "queue (flow s) = []"
    "to_notify (flow s) = 0" "accepted (flow s) = []" "delivered (flow s) = []"
    "out (flow s) = start lib (new_OutstationManager cfg)" "asked s = []" "replies s = []"
  using assms
  by (simp_all add: service_initial_def in_service_def boot_def start_bridge_def start_outstation_def
      construct_def bridge_ops new_bridge_def idle_threads_def)

interpretation process_in_service: component "service_initial lib cfg" "sstep q" "sreachable q lib cfg"
    "\<lambda>p. p = launched" pstep preachable proc
  for q lib cfg
proof unfold_locales
  show "sstep q s t \<Longrightarrow> proc t = proc s \<or> pstep (proc s) (proc t)" for s t
    using server_stop [of "proc s"] bridge_stop [of "proc s"] outstation_shutdown [of "proc s"]
    by (auto elim!: sstepE simp: replace_handler_def)
qed (simp add: service_initial_fields)

interpretation dispatcher_in_service: component "service_initial lib cfg" "sstep q" "sreachable q lib cfg"
    "\<lambda>d. d = idle_threads" dstep dreachable cmds
  for q lib cfg
proof unfold_locales
  show "sstep q s t \<Longrightarrow> cmds t = cmds s \<or> dstep (cmds s) (cmds t)" for s t
    by (erule sstep.cases)
      (auto simp: replace_handler_def begin_operate_dstep simp del: perform.simps intro: dstep_perform)
qed (simp add: service_initial_fields)

lemma service_components:
  assumes "sreachable q lib cfg s"
  shows "preachable (proc s)" "orderly (proc s)" "dreachable (cmds s)"
  using process_in_service.part_reached [OF assms] dispatcher_in_service.part_reached [OF assms]
    preachable_orderly by blast+

section \<open>The bridge in the service\<close>

text \<open>What holds of the bridge whatever else changes the outstation.\<close>

definition flow_ok :: "bridge \<Rightarrow> bool" where
  "flow_ok b \<longleftrightarrow> controlled b \<and> awake b \<and> flush b \<noteq> No_thread \<and> control b \<noteq> Launching \<and>
     accepted b = delivered b @ batch (flush b) @ queue b"

fun launching :: "bridge_action \<Rightarrow> bool" where
  "launching Start = True"
| "launching Launch = True"
| "launching (Push u) = False"
| "launching Notify_one = False"
| "launching Spurious_wakeup = False"
| "launching Test = False"
| "launching Deliver = False"
| "launching Stop = False"
| "launching Notify_all = False"
| "launching Join = False"

lemma flow_ok_step:
  assumes "bridge_perform q a b = Some b'" and "\<not> launching a" and "flow_ok b"
  shows "flow_ok b'"
proof -
  have "controlled b'" "awake b'"
    using assms(3) controlled_step [OF assms(1)] awake_step [OF assms(1)] by (simp_all add: flow_ok_def)
  moreover have "flush b' \<noteq> No_thread \<and> control b' \<noteq> Launching \<and>
      accepted b' = delivered b' @ batch (flush b') @ queue b'"
    by (cases a) (use assms in \<open>auto simp: bridge_ops flow_ok_def wake_def controlled_def
        split: if_splits flush_pc.splits list.splits control_pc.splits\<close>)
  ultimately show ?thesis by (simp add: flow_ok_def)
qed

lemma map_out_fields [simp]:
  "queue (map_out f b) = queue b" "running (map_out f b) = running b" "flush (map_out f b) = flush b"
  "control (map_out f b) = control b" "to_notify (map_out f b) = to_notify b"
  "accepted (map_out f b) = accepted b" "delivered (map_out f b) = delivered b"
  "out (map_out f b) = f (out b)"
  by (simp_all add: map_out_def)

lemma flow_ok_map_out [simp]: "flow_ok (map_out f b) = flow_ok b"
  by (simp add: flow_ok_def controlled_def awake_def split: control_pc.split)

lemma flow_ok_push: "flow_ok b \<Longrightarrow> flow_ok (push_update u b)"
  using flow_ok_step [of q "Push u" b] by simp

lemma flow_ok_notify: "flow_ok b \<Longrightarrow> notify_one b = Some b' \<Longrightarrow> flow_ok b'"
  using flow_ok_step [of q Notify_one b] by simp

definition applied_ok :: "AnalogQuality \<Rightarrow> bridge \<Rightarrow> bool" where
  "applied_ok q b \<longleftrightarrow>
     map content_of (applied (out b)) = map (expected_content q) (delivered b)"

lemma deliver_one_content:
  "outstation m \<noteq> None \<Longrightarrow>
     map content_of (applied (deliver q u m)) = map content_of (applied m) @ [expected_content q u]"
  using deliver_all_content [of m q "[u]"] by simp

lemma deliver_manager [simp]: "manager (deliver q u m) = manager m"
  by (cases u) (simp_all add: updateAnalog_def updateBinary_def Let_def)

text \<open>What a step of the flush thread or of \<open>stop\<close> leaves alone.\<close>

lemma inner_frame:
  assumes "bridge_perform q a b = Some b'" and "flushing a \<or> a = Spurious_wakeup \<or> stopping a"
  shows "accepted b' = accepted b \<and> to_notify b' = to_notify b \<and>
    (outstation (out b') = None \<longleftrightarrow> outstation (out b) = None) \<and> manager (out b') = manager (out b) \<and>
    (outstation (out b) \<noteq> None \<longrightarrow> applied_ok q b \<longrightarrow> applied_ok q b')"
  by (cases a) (use assms in \<open>auto simp: bridge_ops applied_ok_def deliver_one_content
      simp del: not_None_eq split: if_splits flush_pc.splits list.splits\<close>)

lemma flush_frame:
  assumes "bridge_perform q a b = Some b'" and "flushing a \<or> a = Spurious_wakeup"
  shows "running b' = running b \<and> control b' = control b \<and> flush b \<noteq> Exited \<and>
    (flush b' = Exited \<longrightarrow> queue b' = [])"
  by (cases a) (use assms in \<open>auto simp: bridge_ops
      split: if_splits flush_pc.splits list.splits\<close>)

lemma stop_frame:
  assumes "bridge_perform q a b = Some b'" and "stopping a"
  shows "queue b' = queue b \<and> (flush b' = Exited \<longleftrightarrow> flush b = Exited)"
  by (cases a) (use assms in \<open>auto simp: bridge_ops wake_def split: if_splits\<close>)

section \<open>The invariant of the service\<close>

text \<open>
  The requests in progress agree with the bridge: every update queued belongs to an answered
  request or to one in progress, and the notifications to come are those of the handlers.
\<close>

definition handlers_ok :: "service \<Rightarrow> bool" where
  "handlers_ok s \<longleftrightarrow>
     to_notify (flow s) = size (filter_mset notifying (handlers s)) \<and>
     mset (accepted (flow s)) = acked s + (\<Sum>h \<in># handlers s. mset (pushed h))"

text \<open>What has been stopped at each position of the main thread.\<close>

definition stages_ok :: "service \<Rightarrow> bool" where
  "stages_ok s \<longleftrightarrow>
     (before_stop (main_at (proc s)) \<longrightarrow>
        running (flow s) \<and> control (flow s) = Outside \<and> \<not> server_shut (proc s)) \<and>
     (main_rank (main_at (proc s)) \<le> 2 \<longrightarrow> flush (flow s) = Exited \<and> control (flow s) = Outside \<and>
        \<not> running (flow s)) \<and>
     (outstation (out (flow s)) = None \<longrightarrow> main_rank (main_at (proc s)) \<le> 2) \<and>
     (main_rank (main_at (proc s)) \<le> 1 \<longrightarrow> outstation (out (flow s)) = None) \<and>
     (manager (out (flow s)) \<longleftrightarrow> 1 < main_rank (main_at (proc s))) \<and>
     (server_shut (proc s) \<longrightarrow> handlers s = {#} \<and> streams (cmds s) = Map.empty \<and>
        (flush (flow s) = Exited \<longrightarrow> queue (flow s) = []))"

definition calls_done :: "service \<Rightarrow> bool" where
  "calls_done s \<longleftrightarrow> (main_rank (main_at (proc s)) \<le> 1 \<longrightarrow>
     (\<forall>c < made (cmds s). finished (phase (cmds s) c)))"

lemma process_moves_frame:
  assumes "pstep p p'" and "main_at p' = main_at p \<or> main_alone (main_at p)"
  shows "server_shut p' = server_shut p \<and> (server_set p \<longrightarrow> server_set p') \<and>
    (main_rank (main_at p') \<le> 2 \<longleftrightarrow> main_rank (main_at p) \<le> 2) \<and>
    (main_rank (main_at p') \<le> 1 \<longleftrightarrow> main_rank (main_at p) \<le> 1) \<and>
    (1 < main_rank (main_at p') \<longleftrightarrow> 1 < main_rank (main_at p)) \<and>
    before_stop (main_at p') = before_stop (main_at p)"
  using assms by cases auto

lemma flow_ok_initial: "service_initial lib cfg s \<Longrightarrow> flow_ok (flow s)"
  by (simp add: flow_ok_def controlled_def awake_def service_initial_fields)

lemma not_launching [simp]: "stopping a \<Longrightarrow> \<not> launching a" "flushing a \<Longrightarrow> \<not> launching a"
  by (cases a; simp)+

lemma flow_ok_sstep: "sstep q s t \<Longrightarrow> flow_ok (flow s) \<Longrightarrow> flow_ok (flow t)"
  by (erule sstep.cases)
    (auto simp: replace_handler_def flow_ok_push simp del: perform.simps bridge_perform.simps
      intro: flow_ok_step flow_ok_notify)

lemma service_flow_ok: "sreachable q lib cfg s \<Longrightarrow> flow_ok (flow s)"
  by (rule services.invariant [where P = "\<lambda>s. flow_ok (flow s)"]) (auto intro: flow_ok_initial flow_ok_sstep)

lemma handlers_ok_sstep:
  assumes "sstep q s t" and "handlers_ok s"
  shows "handlers_ok t"
  using assms(1)
proof cases
  case (bridge_stopping a b)
  then show ?thesis using assms(2) inner_frame [OF bridge_stopping(4)] by (simp add: handlers_ok_def)
next
  case (flush_steps a b)
  then show ?thesis using assms(2) inner_frame [OF flush_steps(3)] by (auto simp: handlers_ok_def)
next
  case (handler_pushes ps u us)
  then obtain H where "handlers s = add_mset \<lparr>pushed = ps, todo = u # us, notifying = False\<rparr> H"
    by (blast dest: multi_member_split)
  then show ?thesis using assms(2) handler_pushes(1)
    by (simp add: handlers_ok_def replace_handler_def push_update_def)
next
  case (handler_notifies ps us b)
  then obtain H where "handlers s = add_mset \<lparr>pushed = ps, todo = us, notifying = True\<rparr> H"
    by (blast dest: multi_member_split)
  then show ?thesis using assms(2) handler_notifies(1,3)
    by (auto simp: handlers_ok_def replace_handler_def notify_one_def split: if_splits)
next
  case (handler_answers ps now_ms)
  then obtain H where "handlers s = add_mset \<lparr>pushed = ps, todo = [], notifying = False\<rparr> H"
    by (blast dest: multi_member_split)
  then show ?thesis using assms(2) handler_answers(1) by (simp add: handlers_ok_def)
qed (use assms(2) in \<open>simp_all add: handlers_ok_def\<close>)

lemma handlers_ok_initial: "service_initial lib cfg s \<Longrightarrow> handlers_ok s"
  by (simp add: handlers_ok_def service_initial_fields)

lemma service_handlers_ok: "sreachable q lib cfg s \<Longrightarrow> handlers_ok s"
  by (rule services.invariant [where P = handlers_ok]) (auto intro: handlers_ok_initial handlers_ok_sstep)

lemma stages_ok_initial: "service_initial lib cfg s \<Longrightarrow> stages_ok s"
  by (simp add: stages_ok_def service_initial_fields launched_def start_def Let_def)

text \<open>What the stages need of the bridge.\<close>

lemma flow_stopped:
  assumes "flow_ok b" and "control b = Outside"
  shows "\<not> running b \<longleftrightarrow> flush b = Exited"
  using assms by (auto simp: flow_ok_def controlled_def split: if_splits)

lemma stop_pc: "stopping a \<Longrightarrow> bridge_perform q a b = Some b' \<Longrightarrow> flush b = Exited \<Longrightarrow> flush b' = Exited"
  using stop_frame by blast

lemma internal_frame:
  assumes "internal a" and "perform a s = Some t"
  shows "streams t = streams s"
  by (cases a) (use assms in \<open>auto simp: ops_Some split: if_splits option.splits\<close>)

lemma main_rank_before: "before_stop pc \<longleftrightarrow> 4 \<le> main_rank pc"
  by (cases pc) simp_all

lemma stages_ok_sstep:
  assumes "sstep q s t" and "flow_ok (flow s)" and "stages_ok s"
  shows "stages_ok t"
  using assms(1)
proof cases
  case (process_moves p)
  then show ?thesis
    using assms(3) process_moves_frame [OF process_moves(2,3)] by (simp add: stages_ok_def)
next
  case server_stops
  then show ?thesis using assms(2,3) flow_stopped [OF assms(2)] by (simp add: stages_ok_def)
next
  case (bridge_stopping a b)
  then show ?thesis
    using assms(3) inner_frame [OF bridge_stopping(4)] stop_frame [OF bridge_stopping(4)]
    by (simp add: stages_ok_def)
next
  case bridge_stopped
  then show ?thesis using assms(3) flow_stopped [OF assms(2)] by (simp add: stages_ok_def)
next
  case outstation_released
  then show ?thesis using assms(3) by (simp add: stages_ok_def release_outstation_def)
next
  case manager_shuts_down
  then show ?thesis using assms(3) by (simp add: stages_ok_def stop_manager_def)
next
  case (channel_changes st)
  then show ?thesis using assms(3) by (simp add: stages_ok_def OnStateChange_def)
next
  case (flush_steps a b)
  then show ?thesis
    using assms(3) inner_frame [OF flush_steps(3)] flush_frame [OF flush_steps(3,2)]
    by (auto simp: stages_ok_def)
next
  case (request_arrives r)
  then show ?thesis using assms(3) by (simp add: stages_ok_def serving_def)
next
  case (handler_pushes ps u us)
  then show ?thesis using assms(3)
    by (auto simp: stages_ok_def replace_handler_def push_update_def)
next
  case (handler_notifies ps us b)
  then show ?thesis using assms(3)
    by (auto simp: stages_ok_def replace_handler_def notify_one_def wake_def split: if_splits)
next
  case (handler_answers ps now_ms)
  then show ?thesis using assms(3) by (auto simp: stages_ok_def)
next
  case (command_arrives cmd index)
  then show ?thesis using assms(3) by (simp add: stages_ok_def begin_operate_request)
next
  case (command_steps a c)
  then show ?thesis
    using assms(3) internal_frame [OF command_steps(2,3)] by (simp add: stages_ok_def)
next
  case (client_responds resp c)
  then show ?thesis using assms(3) by (simp add: stages_ok_def serving_def)
next
  case (stream_opens w c)
  then show ?thesis using assms(3) by (simp add: stages_ok_def serving_def)
next
  case (stream_closes w c)
  then show ?thesis using assms(3) by (auto simp: stages_ok_def close_stream_Some)
qed

lemma service_stages_ok: "sreachable q lib cfg s \<Longrightarrow> stages_ok s"
  by (rule services.invariant_with [where P = stages_ok and Q = "\<lambda>s. flow_ok (flow s)"])
    (auto intro: stages_ok_initial stages_ok_sstep service_flow_ok)

lemma calls_done_sstep:
  assumes "sstep q s t" and "numbering (cmds s)" and "stages_ok s" and "calls_done s"
  shows "calls_done t"
  using assms(1)
proof cases
  case (process_moves p)
  then show ?thesis
    using assms(4) process_moves_frame [OF process_moves(2,3)] by (simp add: calls_done_def)
next
  case manager_shuts_down
  then show ?thesis using assms(3) by (simp add: calls_done_def stages_ok_def list_all_iff)
next
  case (command_arrives cmd index)
  then show ?thesis using assms(3) by (simp add: calls_done_def stages_ok_def)
next
  case (command_steps a c)
  have "rank (phase (cmds s) (actor a)) \<noteq> 0" "actor a < made (cmds s)"
    using internal_phase [OF command_steps(2,3)] numbering_made [OF assms(2)] by auto
  moreover have "finished pc \<Longrightarrow> rank pc = 0" for pc by (cases pc) simp_all
  ultimately have "\<not> (\<forall>c < made (cmds s). finished (phase (cmds s) c))" by metis
  with command_steps(1) show ?thesis using assms(4) unfolding calls_done_def by simp blast
next
  case (client_responds resp c)
  then have "made c = made (cmds s)" "phase c = phase (cmds s)"
    by (auto simp: answer_def split: prod.splits)
  with client_responds(1) show ?thesis using assms(4) by (simp add: calls_done_def)
next
  case (stream_opens w c)
  then show ?thesis using assms(4) by (simp add: calls_done_def open_stream_Some)
next
  case (stream_closes w c)
  then show ?thesis using assms(4) by (auto simp: calls_done_def close_stream_Some)
qed (use assms(4) in \<open>simp_all add: calls_done_def replace_handler_def\<close>)

lemma calls_done_initial: "service_initial lib cfg s \<Longrightarrow> calls_done s"
  by (simp add: calls_done_def service_initial_fields launched_def)

lemma service_calls_done: "sreachable q lib cfg s \<Longrightarrow> calls_done s"
  by (rule services.invariant_with [where P = calls_done
        and Q = "\<lambda>s. numbering (cmds s) \<and> stages_ok s"])
    (auto intro: calls_done_sstep service_stages_ok reachable_parts(1) service_components(3)
      calls_done_initial)

lemma service_applied_ok: "sreachable q lib cfg s \<Longrightarrow> applied_ok q (flow s)"
proof (rule services.invariant_with [where P = "\<lambda>s. applied_ok q (flow s)" and Q = stages_ok])
  show "service_initial lib cfg s \<Longrightarrow> applied_ok q (flow s)" for s
    by (simp add: applied_ok_def service_initial_fields start_def new_OutstationManager_def Let_def)
  fix s t
  assume step: "sstep q s t" and stages: "stages_ok s" and ok: "applied_ok q (flow s)"
  have running: "outstation (out (flow s)) \<noteq> None" if "flush (flow s) \<noteq> Exited"
    using stages that by (auto simp: stages_ok_def)
  from step show "applied_ok q (flow t)"
  proof cases
    case (bridge_stopping a b)
    then show ?thesis
      using inner_frame [OF bridge_stopping(4)] ok stages by (simp add: stages_ok_def)
  next
    case (flush_steps a b)
    then show ?thesis
      using inner_frame [OF flush_steps(3)] ok running flush_frame [OF flush_steps(3,2)] by auto
  next
    case (handler_notifies ps us b)
    then show ?thesis using ok
      by (auto simp: applied_ok_def replace_handler_def notify_one_def split: if_splits)
  qed (use ok in \<open>simp_all add: applied_ok_def replace_handler_def push_update_def shutdown_parts
        OnStateChange_def\<close>)
qed (auto intro: service_stages_ok)

section \<open>An orderly shutdown loses nothing\<close>

lemma stopped_in_order:
  assumes "sreachable q lib cfg s" and "server_shut (proc s)" and "main_rank (main_at (proc s)) \<le> 2"
  shows "map content_of (applied (out (flow s))) = map (expected_content q) (accepted (flow s))"
    "delivered (flow s) = accepted (flow s)" "mset (accepted (flow s)) = acked s"
    "handlers s = {#}"
proof -
  have "flush (flow s) = Exited" "handlers s = {#}" "queue (flow s) = []"
    using service_stages_ok [OF assms(1)] assms(2,3) by (simp_all add: stages_ok_def)
  then show "map content_of (applied (out (flow s))) = map (expected_content q) (accepted (flow s))"
    "delivered (flow s) = accepted (flow s)" "mset (accepted (flow s)) = acked s" "handlers s = {#}"
    using service_flow_ok [OF assms(1)] service_handlers_ok [OF assms(1)]
      service_applied_ok [OF assms(1)]
    by (simp_all add: flow_ok_def handlers_ok_def applied_ok_def)
qed

text \<open>
  C3: No acknowledged update is lost by an orderly shutdown: when \<open>main\<close> has stopped a running
  server and then the bridge, whatever the interleaving of requests, flush thread, commands and
  channel events was, every update accepted has been applied by the outstation exactly once, in
  order and with its value and flags, no request is in progress, and the updates accepted are
  exactly those of the requests that were answered.
\<close>

theorem orderly_shutdown_applies_all:
  assumes "sreachable q lib cfg s" and "server_shut (proc s)"
    and "main_at (proc s) \<in> {Stopping_outstation, Joining_server, Exited_0}"
  shows "map content_of (applied (out (flow s))) = map (expected_content q) (accepted (flow s)) \<and>
    delivered (flow s) = accepted (flow s) \<and> mset (accepted (flow s)) = acked s \<and>
    handlers s = {#}"
  using stopped_in_order [OF assms(1,2)] assms(3) by auto

end
