(* ===== verification/ServiceShutdown.thy ===== *)
theory ServiceShutdown
  imports Service
begin

text \<open>
  The end of the running service of \<open>Service\<close>: a measure of the steps that are left, progress at
  each position of \<open>main\<close>, the completion of every orderly shutdown, and what happens when the
  signal overtakes the start of the server. The runs of single requests and the witnesses of
  \<open>Service\<close> are here as well.
\<close>

section \<open>The work that is left\<close>

definition flush_work :: "bridge \<Rightarrow> nat" where
  "flush_work b =
     (let idle = (if queue b = [] then 1 else length (queue b) + 4) in
      case flush b of
        Exited \<Rightarrow> 0 | No_thread \<Rightarrow> 0 | Sleeping \<Rightarrow> idle | Checking \<Rightarrow> idle + 1
      | Draining us \<Rightarrow> length us + 2 + idle)"

definition stop_work :: "bridge \<Rightarrow> nat" where
  "stop_work b =
     (if running b then 4
      else case control b of Notifying_all \<Rightarrow> 3 | Joining \<Rightarrow> 1 | Outside \<Rightarrow> 0 | Launching \<Rightarrow> 0)"

definition release_work :: "bridge \<Rightarrow> nat" where
  "release_work b = (if outstation (out b) = None then 0 else 1)"

definition handler_work :: "handler \<Rightarrow> nat" where
  "handler_work h = 10 * length (todo h) + (if notifying h then 2 else 0) + 1"

text \<open>The steps that are left at most, if nobody asks for more.\<close>

definition work :: "service \<Rightarrow> nat" where
  "work s = process_rank (proc s) + flush_work (flow s) + stop_work (flow s) + release_work (flow s) +
     (\<Sum>h \<in># handlers s. handler_work h) + card (dom (streams (cmds s))) + total_rank (cmds s)"

definition nearer :: "AnalogQuality \<Rightarrow> service \<Rightarrow> bool" where
  "nearer q s \<longleftrightarrow> (\<exists>t. sstep q s t \<and> work t < work s)"

lemma release_work_map_out [simp]:
  "release_work (map_out (OnStateChange st) b) = release_work b"
  "release_work (map_out stop_manager b) = release_work b"
  "release_work (map_out release_outstation b) = 0"
  by (simp_all add: release_work_def OnStateChange_def shutdown_parts)

lemma release_work_inner:
  "bridge_perform q a b = Some b' \<Longrightarrow> flushing a \<or> a = Spurious_wakeup \<or> stopping a \<Longrightarrow>
     release_work b' = release_work b"
  using inner_frame by (simp add: release_work_def)

lemma release_work_push [simp]: "release_work (push_update u b) = release_work b"
  by (simp add: release_work_def push_update_def)

lemma nearerI: "sstep q s t \<Longrightarrow> work t < work s \<Longrightarrow> nearer q s"
  unfolding nearer_def by blast

lemma finite_streams: "dreachable d \<Longrightarrow> finite (dom (streams d))"
proof (rule dispatching.invariant [where P = "\<lambda>d. finite (dom (streams d))"])
  fix d e
  assume "dstep d e" and fin: "finite (dom (streams d))"
  then obtain a where a: "perform a d = Some e" by (auto elim: dstepE)
  show "finite (dom (streams e))"
    using a fin by (cases rule: perform_cases) auto
qed (auto simp: idle_threads_def)

lemma process_nearer:
  assumes "pstep (proc s) p" and "p \<noteq> proc s" and "shutdown_requested (proc s)"
    and "main_at p = main_at (proc s) \<or> main_alone (main_at (proc s))"
  shows "nearer q s"
proof (rule nearerI)
  show "sstep q s (s\<lparr>proc := p\<rparr>)" using assms(1,4) by (rule process_moves)
  show "work (s\<lparr>proc := p\<rparr>) < work s"
    using settled_decreases [OF assms(1-3)] by (simp add: work_def)
qed

lemma command_nearer:
  assumes "dreachable (cmds s)" and "internal a" and "perform a (cmds s) = Some d"
  shows "nearer q s"
proof (rule nearerI)
  show "sstep q s (s\<lparr>cmds := d\<rparr>)" using assms(2,3) by (rule command_steps)
  show "work (s\<lparr>cmds := d\<rparr>) < work s"
    using internal_rank [OF reachable_parts(1) [OF assms(1)] assms(2,3)]
      internal_frame [OF assms(2,3)] by (simp add: work_def)
qed

lemma notify_work:
  assumes "notify_one b = Some b'"
  shows "flush_work b' \<le> flush_work b + 1" "stop_work b' = stop_work b" "release_work b' = release_work b"
  using assms by (auto simp: notify_one_def wake_def flush_work_def stop_work_def release_work_def Let_def
      split: if_splits flush_pc.splits)

lemma push_work:
  "flush_work (push_update u b) \<le> flush_work b + 4" "stop_work (push_update u b) = stop_work b"
  by (auto simp: push_update_def flush_work_def stop_work_def Let_def split: flush_pc.split)

text \<open>The next step of a handler: the queue it fills costs less than what it takes off its list.\<close>

lemma handler_nearer:
  assumes "handlers_ok s" and "h \<in># handlers s"
  shows "nearer q s"
proof -
  obtain ps us n where h: "h = \<lparr>pushed = ps, todo = us, notifying = n\<rparr>" by (cases h)
  obtain H where H: "handlers s = add_mset h H" using assms(2) by (blast dest: multi_member_split)
  show ?thesis
  proof (cases n)
    case True
    then have "to_notify (flow s) \<noteq> 0" using assms(1) by (simp add: handlers_ok_def H h)
    then obtain b where b: "notify_one (flow s) = Some b" by (simp add: notify_one_def)
    with True notify_work [OF b] show ?thesis
      using handler_notifies [of ps us s b q]
      by (intro nearerI) (auto simp: H h work_def replace_handler_def handler_work_def)
  next
    case idle: False
    show ?thesis
    proof (cases us)
      case Nil
      with idle show ?thesis
        using handler_answers [of ps s q 0]
        by (intro nearerI) (auto simp: H h work_def handler_work_def)
    next
      case (Cons u us')
      with idle push_work [of u "flow s"] show ?thesis
        using handler_pushes [of ps u us' s q]
        by (intro nearerI) (auto simp: H h work_def replace_handler_def handler_work_def)
    qed
  qed
qed

text \<open>A step of the flush thread, possible whenever it is neither gone nor asleep.\<close>

lemma flush_nearer:
  assumes "flush (flow s) \<in> {Checking} \<union> range Draining"
  shows "nearer q s"
proof -
  have "\<exists>a b. flushing a \<and> bridge_perform q a (flow s) = Some b \<and>
      flush_work b < flush_work (flow s) \<and> stop_work b = stop_work (flow s)"
  proof (cases "flush (flow s)")
    case Checking
    then show ?thesis
      by (intro exI [of _ Test]) (auto simp: test_predicate_def flush_work_def stop_work_def Let_def)
  next
    case (Draining us)
    then show ?thesis
      by (intro exI [of _ Deliver]) (cases us; simp add: deliver_front_def flush_work_def stop_work_def)
  qed (use assms in auto)
  then obtain a b where a: "flushing a" "bridge_perform q a (flow s) = Some b"
    "flush_work b < flush_work (flow s)" "stop_work b = stop_work (flow s)" by blast
  show ?thesis
    using release_work_inner [OF a(2)] a(1)
    by (intro nearerI [OF flush_steps [OF disjI1 [OF a(1)] a(2)]]) (simp add: work_def a)
qed

lemma stop_nearer:
  assumes "main_at (proc s) = Stopping_bridge" and "stopping a"
    and "bridge_perform q a (flow s) = Some b"
    and "flush_work b + stop_work b < flush_work (flow s) + stop_work (flow s)"
  shows "nearer q s"
  by (rule nearerI [OF bridge_stopping [OF assms(1-3)]])
    (use assms(2,4) release_work_inner [OF assms(3)] in \<open>simp add: work_def\<close>)

lemma polling_nearer:
  assumes "main_at (proc s) = Polling" and "shutdown_requested (proc s)"
  shows "nearer q s"
proof (rule process_nearer)
  show "pstep (proc s) ((proc s)\<lparr>main_at := Stopping_server\<rparr>)" using assms by (rule see_request)
  have "main_at ((proc s)\<lparr>main_at := Stopping_server\<rparr>) \<noteq> main_at (proc s)" using assms(1) by simp
  then show "(proc s)\<lparr>main_at := Stopping_server\<rparr> \<noteq> proc s" by metis
qed (use assms in simp_all)

lemma close_stream_work:
  assumes "dreachable (cmds s)" and "perform (Close_stream w) (cmds s) = Some d"
  shows "work (s\<lparr>cmds := d\<rparr>) < work s"
proof -
  have d: "streams d = (streams (cmds s))(w := None)" "made d = made (cmds s)"
    "phase d = phase (cmds s)" "streams (cmds s) w \<noteq> None"
    using assms(2) by (auto simp: close_stream_Some)
  have "card (dom (streams (cmds s)) - {w}) < card (dom (streams (cmds s)))"
    using finite_streams [OF assms(1)] d(4) by (intro psubset_card_mono) auto
  with d show ?thesis by (simp add: work_def total_rank_def)
qed

lemma stream_nearer:
  assumes "dreachable (cmds s)" and "streams (cmds s) w \<noteq> None"
  shows "nearer q s"
proof (cases "writer_lock (cmds s)")
  case (Some c)
  then have "locks_writer (phase (cmds s) c)"
    using reachable_parts(5) [OF assms(1)] unfolding locking_def by blast
  then show ?thesis using lock_holder_moves command_nearer [OF assms(1)] by blast
next
  case None
  then obtain d where d: "perform (Close_stream w) (cmds s) = Some d"
    using assms(2) by (auto simp: close_stream_def)
  show ?thesis by (rule nearerI [OF stream_closes [OF d] close_stream_work [OF assms(1) d]])
qed

lemma stopping_server_nearer:
  assumes "main_at (proc s) = Stopping_server" and "dreachable (cmds s)" and "handlers_ok s"
  shows "nearer q s"
proof (cases "server_set (proc s) \<longrightarrow> handlers s = {#} \<and> streams (cmds s) = Map.empty")
  case True
  show ?thesis
    by (rule nearerI [OF server_stops [OF assms(1) True]])
      (simp add: work_def process_rank_def assms(1))
next
  case False
  then consider h where "h \<in># handlers s" | w where "streams (cmds s) w \<noteq> None"
    by (meson ext multiset_nonemptyE)
  then show ?thesis
    using handler_nearer [OF assms(3)] stream_nearer [OF assms(2)] by cases blast+
qed

lemma stopping_bridge_nearer:
  assumes "main_at (proc s) = Stopping_bridge" and "flow_ok (flow s)"
  shows "nearer q s"
proof (cases "control (flow s)")
  case Outside
  show ?thesis
  proof (cases "running (flow s)")
    case True
    with Outside show ?thesis
      by (intro stop_nearer [OF assms(1), of Stop _ "flow s\<lparr>running := False,
            control := Notifying_all, stop_mark := length (accepted (flow s))\<rparr>"])
        (simp_all add: stop_flag_def flush_work_def stop_work_def)
  next
    case False
    show ?thesis
      by (rule nearerI [OF bridge_stopped [OF assms(1) Outside False]])
        (simp add: work_def process_rank_def assms(1))
  qed
next
  case Notifying_all
  with assms(2) have "\<not> running (flow s)" by (simp add: flow_ok_def controlled_def)
  with Notifying_all show ?thesis
    by (intro stop_nearer [OF assms(1), of Notify_all _ "flow s\<lparr>flush := wake (flush (flow s)),
          control := Joining\<rparr>"])
      (auto simp: notify_all_def flush_work_def stop_work_def wake_def Let_def split: flush_pc.split)
next
  case Joining
  with assms(2) have b: "\<not> running (flow s)" "flush (flow s) \<noteq> Sleeping" "flush (flow s) \<noteq> No_thread"
    by (simp_all add: flow_ok_def controlled_def)
  show ?thesis
  proof (cases "flush (flow s) = Exited")
    case True
    with Joining b(1) show ?thesis
      by (intro stop_nearer [OF assms(1), of Join _ "flow s\<lparr>control := Outside\<rparr>"])
        (simp_all add: join_thread_def flush_work_def stop_work_def)
  next
    case False
    with b show ?thesis by (intro flush_nearer) (cases "flush (flow s)"; auto)+
  qed
next
  case Launching
  then show ?thesis using assms(2) by (simp add: flow_ok_def)
qed

lemma stopping_outstation_nearer:
  assumes "main_at (proc s) = Stopping_outstation" and "dreachable (cmds s)"
  shows "nearer q s"
proof -
  consider (held) "outstation (out (flow s)) \<noteq> None"
    | (over) "outstation (out (flow s)) = None" "list_all (\<lambda>c. finished (phase (cmds s) c)) [0..<made (cmds s)]"
    | (busy) c where "c < made (cmds s)" "\<not> finished (phase (cmds s) c)"
    unfolding list_all_iff set_upt by (metis atLeastLessThan_iff)
  then show ?thesis
  proof cases
    case held
    then have "release_work (flow s) = 1" by (simp add: release_work_def)
    then show ?thesis
      by (intro nearerI [OF outstation_released [OF assms(1) held]])
        (simp add: work_def flush_work_def stop_work_def)
  next
    case over
    show ?thesis
      by (rule nearerI [OF manager_shuts_down [OF assms(1) over(1) impI]])
        (simp_all add: over(2) work_def process_rank_def assms(1) flush_work_def stop_work_def)
  next
    case busy
    then show ?thesis using unfinished_moves [OF assms(2)] command_nearer [OF assms(2)] by blast
  qed
qed

lemma joining_nearer:
  assumes "main_at (proc s) = Joining_server" and "settled (proc s)" and "shutdown_requested (proc s)"
    and "preachable (proc s)"
  shows "nearer q s"
proof -
  obtain p where "pstep (proc s) p" "p \<noteq> proc s"
    using settled_progress [OF assms(4,2,3)] assms(1) by auto
  then show ?thesis using assms(1,3) by (intro process_nearer) simp_all
qed

lemma shutdown_nearer:
  assumes "sreachable q lib cfg s" and "settled (proc s)" and "shutdown_requested (proc s)"
    and "main_at (proc s) \<noteq> Exited_0"
  shows "nearer q s"
proof -
  note comps = service_components [OF assms(1)]
  show ?thesis
    by (cases "main_at (proc s)")
      (use assms polling_nearer stopping_server_nearer [OF _ comps(3) service_handlers_ok [OF assms(1)]]
        stopping_bridge_nearer [OF _ service_flow_ok [OF assms(1)]]
        stopping_outstation_nearer [OF _ comps(3)] joining_nearer [OF _ assms(2,3) comps(1)] in auto)
qed

lemma settled_request_stays:
  assumes "sreachable q lib cfg s" and "sstep q s t"
    and "settled (proc s)" and "shutdown_requested (proc s)"
  shows "settled (proc t) \<and> shutdown_requested (proc t)"
proof -
  have "proc t = proc s \<or> pstep (proc s) (proc t)"
    using assms(2) by (rule process_in_service.part_of_step)
  moreover have "shutdown_requested p" if "pstep (proc s) p" for p
    using that assms(4) by cases auto
  ultimately show ?thesis
    using assms settled_stays [OF service_components(1) [OF assms(1)]] by auto
qed

text \<open>\<open>main\<close> cannot pass \<open>stop\<close> without shutting down a server that is set.\<close>

definition stop_sees_server :: "process \<Rightarrow> bool" where
  "stop_sees_server p \<longleftrightarrow> server_set p \<and> (before_stop (main_at p) \<or> server_shut p)"

lemma stop_sees_server_step: "pstep p p' \<Longrightarrow> stop_sees_server p \<Longrightarrow> stop_sees_server p'"
  by (erule pstepE) (auto simp: stop_sees_server_def)

lemma stop_sees_server_stays:
  "(sstep q)\<^sup>*\<^sup>* s t \<Longrightarrow> stop_sees_server (proc s) \<Longrightarrow> stop_sees_server (proc t)"
  by (induction rule: rtranclp_induct)
    (auto dest: process_in_service.part_of_step intro: stop_sees_server_step)

section \<open>Every shutdown completes\<close>

text \<open>
  What others may ask of the service: a signal, a channel event, a wakeup without a cause, a new
  request, command, answer or stream. Everything else that changes the service is a step of its own.
\<close>

inductive demand :: "service \<Rightarrow> service \<Rightarrow> bool" where
  signal_arrives: "demand s (s\<lparr>proc := (proc s)\<lparr>shutdown_requested := True\<rparr>\<rparr>)"
| channel_event: "demand s (s\<lparr>flow := map_out (OnStateChange st) (flow s)\<rparr>)"
| causeless_wakeup: "spurious_wakeup (flow s) = Some b \<Longrightarrow> demand s (s\<lparr>flow := b\<rparr>)"
| new_request:
    "demand s (s\<lparr>handlers := add_mset \<lparr>pushed = [], todo = updates_of r, notifying = False\<rparr>
       (handlers s)\<rparr>)"
| new_command:
    "demand s (s\<lparr>cmds := begin_operate cmd index (cmds s), asked := asked s @ [(cmd, index)]\<rparr>)"
| new_answer:
    "demand s (s\<lparr>cmds := snd (answer cid status (cmds s)), replies := replies s @ [resp]\<rparr>)"
| new_stream: "open_stream w (cmds s) = Some d \<Longrightarrow> demand s (s\<lparr>cmds := d\<rparr>)"

definition own_step :: "AnalogQuality \<Rightarrow> service \<Rightarrow> service \<Rightarrow> bool" where
  "own_step q s t \<longleftrightarrow> sstep q s t \<and> t \<noteq> s \<and> \<not> demand s t"

lemma pstep_rank: "pstep p p' \<Longrightarrow> p' = p\<lparr>shutdown_requested := True\<rparr> \<or> process_rank p' < process_rank p"
  by (erule pstepE) (auto simp: process_rank_def)

lemma stop_work_step:
  assumes "stopping a" and "bridge_perform q a b = Some b'" and "flow_ok b"
  shows "b' = b \<or> flush_work b' + stop_work b' < flush_work b + stop_work b"
proof (cases a)
  case Stop
  show ?thesis
  proof (cases "running b")
    case True
    then have "queue b' = queue b" "flush b' = flush b" "\<not> running b'" "control b' = Notifying_all"
      using Stop assms by (auto simp: stop_flag_def split: if_splits)
    then show ?thesis using True by (simp add: flush_work_def stop_work_def)
  next
    case False
    then show ?thesis using Stop assms by (auto simp: stop_flag_def split: if_splits)
  qed
next
  case Notify_all
  then have "\<not> running b" "control b = Notifying_all" "b' = b\<lparr>flush := wake (flush b), control := Joining\<rparr>"
    using assms by (auto simp: notify_all_def flow_ok_def controlled_def split: if_splits)
  then show ?thesis
    by (cases "flush b") (simp_all add: wake_def flush_work_def stop_work_def)
next
  case Join
  then have "\<not> running b" "control b = Joining" "b' = b\<lparr>control := Outside\<rparr>"
    using assms by (auto simp: join_thread_def flow_ok_def controlled_def split: if_splits)
  then show ?thesis by (simp add: flush_work_def stop_work_def)
qed (use assms(1) in simp_all)

lemma flush_work_step:
  assumes "flushing a" and "bridge_perform q a b = Some b'"
  shows "flush_work b' < flush_work b \<and> stop_work b' = stop_work b"
  by (cases a) (use assms in \<open>auto simp: bridge_ops flush_work_def stop_work_def Let_def
      split: if_splits flush_pc.splits list.splits\<close>)

text \<open>A step of the service itself leaves it as it is or closer to its end.\<close>

lemma step_work:
  assumes "sstep q s t" and "sreachable q lib cfg s"
  shows "demand s t \<or> t = s \<or> work t < work s"
  using assms(1)
proof cases
  case (process_moves p)
  then show ?thesis using pstep_rank [OF process_moves(2)] by (auto simp: work_def intro: demand.intros)
next
  case server_stops
  then show ?thesis by (simp add: work_def process_rank_def)
next
  case (bridge_stopping a b)
  then show ?thesis
    using stop_work_step [OF bridge_stopping(3,4) service_flow_ok [OF assms(2)]]
      release_work_inner [OF bridge_stopping(4)] by (auto simp: work_def)
next
  case bridge_stopped
  then show ?thesis by (simp add: work_def process_rank_def)
next
  case outstation_released
  then have "release_work (flow s) = 1" by (simp add: release_work_def)
  with outstation_released(1) show ?thesis by (simp add: work_def flush_work_def stop_work_def)
next
  case manager_shuts_down
  then show ?thesis by (simp add: work_def process_rank_def flush_work_def stop_work_def)
next
  case (flush_steps a b)
  show ?thesis
  proof (cases "a = Spurious_wakeup")
    case True
    with flush_steps show ?thesis by (auto intro: demand.intros)
  next
    case False
    with flush_steps flush_work_step [of a q "flow s" b] release_work_inner [OF flush_steps(3)] show ?thesis
      by (simp add: work_def)
  qed
next
  case (handler_pushes ps u us)
  then obtain H where "handlers s = add_mset \<lparr>pushed = ps, todo = u # us, notifying = False\<rparr> H"
    by (blast dest: multi_member_split)
  with handler_pushes(1) push_work [of u "flow s"] show ?thesis
    by (simp add: work_def replace_handler_def handler_work_def)
next
  case (handler_notifies ps us b)
  then obtain H where "handlers s = add_mset \<lparr>pushed = ps, todo = us, notifying = True\<rparr> H"
    by (blast dest: multi_member_split)
  with handler_notifies(1) notify_work [OF handler_notifies(3)] show ?thesis
    by (simp add: work_def replace_handler_def handler_work_def)
next
  case (handler_answers ps now_ms)
  then obtain H where "handlers s = add_mset \<lparr>pushed = ps, todo = [], notifying = False\<rparr> H"
    by (blast dest: multi_member_split)
  with handler_answers(1) show ?thesis by (simp add: work_def handler_work_def)
next
  case (command_steps a c)
  have "numbering (cmds s)" using assms(2) by (intro reachable_parts(1) service_components(3))
  then show ?thesis
    using command_steps internal_rank [OF _ command_steps(2,3)] internal_frame [OF command_steps(2,3)]
    by (simp add: work_def)
next
  case (stream_closes w c)
  then show ?thesis using close_stream_work [OF service_components(3) [OF assms(2)]] by auto
qed (auto intro: demand.intros)

lemma demand_work:
  assumes "demand s t" and "dreachable (cmds s)"
  shows "work s \<le> work t"
  using assms(1)
proof cases
  case signal_arrives
  then show ?thesis by (simp add: work_def process_rank_def)
next
  case (channel_event st)
  then show ?thesis by (simp add: work_def flush_work_def stop_work_def)
next
  case (causeless_wakeup b)
  then have "flush (flow s) = Sleeping" "b = (flow s)\<lparr>flush := Checking\<rparr>"
    by (simp_all add: spurious_wakeup_def split: if_splits)
  with causeless_wakeup(1) show ?thesis
    by (simp add: work_def flush_work_def stop_work_def release_work_def Let_def)
next
  case (new_command cmd index)
  have "total_rank (cmds s) \<le> total_rank (begin_dispatch r (cmds s))" for r
    by (simp add: total_rank_def begin_dispatch_def take_id_def set_phase_def)
  then show ?thesis using new_command by (simp add: work_def begin_operate_request)
next
  case (new_answer cid status resp)
  then show ?thesis by (auto simp: work_def total_rank_def answer_def split: prod.split)
next
  case (new_stream w d)
  have "card (dom (streams (cmds s))) \<le> card (dom (streams d))"
    using new_stream(2) finite_streams [OF assms(2)]
    by (intro card_mono) (auto simp: open_stream_Some)
  with new_stream show ?thesis by (auto simp: work_def total_rank_def open_stream_Some)
qed (simp add: work_def)

lemma own_step_work:
  assumes "own_step q s t" and "sreachable q lib cfg s"
  shows "work t < work s"
  using assms step_work [of q s t lib cfg] by (auto simp: own_step_def)

lemma nearer_own:
  assumes "sreachable q lib cfg s" and "nearer q s"
  shows "\<exists>t. own_step q s t"
proof -
  obtain t where t: "sstep q s t" "work t < work s" using assms(2) unfolding nearer_def by blast
  then have "\<not> demand s t" using demand_work service_components(3) [OF assms(1)] by fastforce
  with t show ?thesis by (auto simp: own_step_def)
qed

lemma own_step_exists:
  assumes "sreachable q lib cfg s" and "settled (proc s)" and "shutdown_requested (proc s)"
    and "main_at (proc s) \<noteq> Exited_0"
  shows "\<exists>t. own_step q s t"
  using nearer_own [OF assms(1) shutdown_nearer [OF assms]] .

lemma own_run_steps: "(own_step q ^^ n) s t \<Longrightarrow> (sstep q)\<^sup>*\<^sup>* s t"
proof (induction n arbitrary: t)
  case (Suc n)
  then show ?case by (auto simp: own_step_def intro: rtranclp.rtrancl_into_rtrancl)
qed simp

lemma own_run:
  assumes "(own_step q ^^ n) s t" and "sreachable q lib cfg s"
  shows "sreachable q lib cfg t" "n + work t \<le> work s"
proof -
  show reach: "sreachable q lib cfg t"
    using assms(2) own_run_steps [OF assms(1)] by (rule services.reachable_steps)
  show "n + work t \<le> work s"
    using assms(1)
  proof (induction n arbitrary: t)
    case (Suc n)
    then obtain u where u: "(own_step q ^^ n) s u" "own_step q u t" by auto
    have "sreachable q lib cfg u"
      using assms(2) own_run_steps [OF u(1)] by (rule services.reachable_steps)
    then show ?case using Suc.IH [OF u(1)] own_step_work [OF u(2)] by fastforce
  qed simp
qed

lemma own_run_settled:
  assumes "(own_step q ^^ n) s t" and "sreachable q lib cfg s"
    and "settled (proc s)" and "shutdown_requested (proc s)"
  shows "settled (proc t)" "shutdown_requested (proc t)"
proof -
  have "settled (proc t) \<and> shutdown_requested (proc t)"
    using own_run_steps [OF assms(1)] assms(2)
    by (rule services.stable_along) (use assms(3,4) settled_request_stays in blast)+
  then show "settled (proc t)" "shutdown_requested (proc t)" by simp_all
qed

text \<open>A run of own steps comes to rest: no request is in progress, and nothing is on its way.\<close>

lemma own_run_to_rest:
  "sreachable q lib cfg s \<Longrightarrow> \<exists>n t. (own_step q ^^ n) s t \<and> \<not> (\<exists>u. own_step q t u)"
proof (induction "work s" arbitrary: s rule: less_induct)
  case less
  show ?case
  proof (cases "\<exists>u. own_step q s u")
    case False
    then show ?thesis by (intro exI [of _ 0] exI [of _ s]) simp
  next
    case True
    then obtain u where u: "own_step q s u" by blast
    then have "sreachable q lib cfg u"
      using less.prems by (auto simp: own_step_def intro: sreachable_step)
    then obtain n t where "(own_step q ^^ n) u t" "\<not> (\<exists>v. own_step q t v)"
      using less.hyps [OF own_step_work [OF u less.prems]] by blast
    with u show ?thesis
      by (intro exI [of _ "Suc n"] exI [of _ t]) (auto intro: relpowp_Suc_I2 simp del: relpowp.simps)
  qed
qed

lemma at_rest:
  assumes "sreachable q lib cfg t" and "\<not> (\<exists>u. own_step q t u)"
  shows "handlers t = {#}" "batch (flush (flow t)) = []"
    "stop_sees_server (proc t) \<Longrightarrow> queue (flow t) = []"
proof -
  have stuck: "\<not> nearer q t" using nearer_own [OF assms(1)] assms(2) by blast
  have "h \<notin># handlers t" for h using stuck handler_nearer [OF service_handlers_ok [OF assms(1)]] by blast
  then show none: "handlers t = {#}" by (meson multiset_nonemptyE)
  have "flush (flow t) \<notin> {Checking} \<union> range Draining" using stuck flush_nearer by blast
  then consider "flush (flow t) = Sleeping" | "flush (flow t) = Exited"
    using service_flow_ok [OF assms(1)] by (cases "flush (flow t)") (auto simp: flow_ok_def)
  then show "batch (flush (flow t)) = []" by cases simp_all
  assume server: "stop_sees_server (proc t)"
  show "queue (flow t) = []"
  proof (cases "flush (flow t) = Exited")
    case True
    have "\<not> before_stop (main_at (proc t))"
      using True service_stages_ok [OF assms(1)] flow_stopped [OF service_flow_ok [OF assms(1)]]
      by (auto simp: stages_ok_def)
    then show ?thesis
      using True server service_stages_ok [OF assms(1)] by (simp add: stages_ok_def stop_sees_server_def)
  next
    case False
    then have "flush (flow t) = Sleeping"
      using \<open>flush (flow t) \<notin> _\<close> service_flow_ok [OF assms(1)]
      by (cases "flush (flow t)") (auto simp: flow_ok_def)
    then show ?thesis
      using none service_flow_ok [OF assms(1)] service_handlers_ok [OF assms(1)]
      by (simp add: flow_ok_def awake_def handlers_ok_def)
  qed
qed

text \<open>
  C14: Every orderly shutdown completes, under every schedule: once a shutdown is requested of a
  running service whose server thread is past \<open>BuildAndStart\<close>, with any number of update requests
  half queued, streams open, commands in flight and updates undelivered, every run of its own
  steps has at most \<open>work s\<close> of them, and as long as \<open>main\<close> has not ended with code 0 there is a next
  one, without any help from a client or a master: no combination of the locks, queues and joins
  of the components deadlocks or goes on for ever. If \<open>stop\<close> found or is to find a running
  server, the service ends with every request answered and every update applied.
\<close>

theorem every_shutdown_completes:
  assumes "sreachable q lib cfg s" and "settled (proc s)" and "shutdown_requested (proc s)"
    and "(own_step q ^^ n) s t"
  shows "n \<le> work s \<and>
    (main_at (proc t) = Exited_0 \<or> (\<exists>u. own_step q t u)) \<and>
    (main_at (proc t) = Exited_0 \<and> stop_sees_server (proc s) \<longrightarrow>
       handlers t = {#} \<and> mset (accepted (flow t)) = acked t \<and>
       map content_of (applied (out (flow t))) = map (expected_content q) (accepted (flow t)))"
proof -
  note run = own_run [OF assms(4,1)] and keeps = own_run_settled [OF assms(4,1-3)]
  have "server_shut (proc t)" if "main_at (proc t) = Exited_0" "stop_sees_server (proc s)"
    using stop_sees_server_stays [OF own_run_steps [OF assms(4)] that(2)] that(1)
    by (simp add: stop_sees_server_def)
  then have "main_at (proc t) = Exited_0 \<and> stop_sees_server (proc s) \<longrightarrow>
      handlers t = {#} \<and> mset (accepted (flow t)) = acked t \<and>
      map content_of (applied (out (flow t))) = map (expected_content q) (accepted (flow t))"
    using stopped_in_order [OF run(1)] by auto
  moreover have "main_at (proc t) = Exited_0 \<or> (\<exists>u. own_step q t u)"
    using own_step_exists [OF run(1) keeps] by blast
  ultimately show ?thesis using run(2) by auto
qed

lemma own_run_to_end:
  assumes "sreachable q lib cfg s" and "settled (proc s)" and "shutdown_requested (proc s)"
  shows "\<exists>n t. (own_step q ^^ n) s t \<and> main_at (proc t) = Exited_0"
proof -
  obtain n t where t: "(own_step q ^^ n) s t" "\<not> (\<exists>u. own_step q t u)"
    using own_run_to_rest [OF assms(1)] by blast
  with own_step_exists [OF own_run(1) [OF t(1) assms(1)] own_run_settled [OF t(1) assms]] show ?thesis
    by blast
qed

section \<open>Runs\<close>

text \<open>A request handled on its own: all its updates are queued, the answer is next.\<close>

definition handled_alone :: "PointUpdate list \<Rightarrow> bridge \<Rightarrow> bridge" where
  "handled_alone us b =
     b\<lparr>queue := queue b @ us, accepted := accepted b @ us,
       flush := (if us = [] then flush b else wake (flush b))\<rparr>"

lemma handled_alone_Cons [simp]:
  "handled_alone us (handled_alone [u] b) = handled_alone (u # us) b"
  "to_notify (handled_alone us b) = to_notify b"
  by (simp_all add: handled_alone_def wake_def)

lemma handler_queues:
  "handlers s = add_mset \<lparr>pushed = ps, todo = us, notifying = False\<rparr> H \<Longrightarrow>
     (sstep q)\<^sup>*\<^sup>* s (s\<lparr>handlers := add_mset \<lparr>pushed = ps @ us, todo = [], notifying = False\<rparr> H,
       flow := handled_alone us (flow s)\<rparr>)"
proof (induction us arbitrary: s ps)
  case Nil
  then have "s\<lparr>handlers := add_mset \<lparr>pushed = ps @ [], todo = [], notifying = False\<rparr> H,
      flow := handled_alone [] (flow s)\<rparr> = s"
    by (simp add: handled_alone_def)
  then show ?case by simp
next
  case (Cons u us)
  let ?s1 = "s\<lparr>handlers := add_mset \<lparr>pushed = ps @ [u], todo = us, notifying = True\<rparr> H,
    flow := push_update u (flow s)\<rparr>"
  let ?s2 = "s\<lparr>handlers := add_mset \<lparr>pushed = ps @ [u], todo = us, notifying = False\<rparr> H,
    flow := handled_alone [u] (flow s)\<rparr>"
  have one: "sstep q s ?s1"
    using handler_pushes [of ps u us s q] Cons.prems by (simp add: replace_handler_def)
  have "notify_one (push_update u (flow s)) = Some (handled_alone [u] (flow s))"
    by (simp add: notify_one_def push_update_def handled_alone_def)
  then have two: "sstep q ?s1 ?s2"
    using handler_notifies [of "ps @ [u]" us ?s1 "handled_alone [u] (flow s)" q]
    by (simp add: replace_handler_def)
  have "(sstep q)\<^sup>*\<^sup>* ?s2 (s\<lparr>handlers := add_mset \<lparr>pushed = ps @ u # us, todo = [], notifying = False\<rparr> H,
    flow := handled_alone (u # us) (flow s)\<rparr>)"
    using Cons.IH [of ?s2 "ps @ [u]"] by simp
  with one two show ?case by (blast intro: converse_rtranclp_into_rtranclp)
qed

lemma request_queues:
  assumes "serving (proc s)"
  shows "(sstep q)\<^sup>*\<^sup>* s (s\<lparr>handlers := add_mset \<lparr>pushed = updates_of r, todo = [], notifying = False\<rparr>
    (handlers s), flow := handled_alone (updates_of r) (flow s)\<rparr>)"
proof -
  let ?s1 = "s\<lparr>handlers := add_mset \<lparr>pushed = [], todo = updates_of r, notifying = False\<rparr> (handlers s)\<rparr>"
  have "sstep q s ?s1" using assms by (rule request_arrives)
  moreover have "(sstep q)\<^sup>*\<^sup>* ?s1 (?s1\<lparr>handlers := add_mset
      \<lparr>pushed = [] @ updates_of r, todo = [], notifying = False\<rparr> (handlers s),
      flow := handled_alone (updates_of r) (flow ?s1)\<rparr>)"
    by (rule handler_queues) simp
  ultimately show ?thesis by (simp add: converse_rtranclp_into_rtranclp)
qed

text \<open>A request that nothing interrupts does what \<open>UpdatePoints\<close> does as one function.\<close>

definition answered_at :: "u64 \<Rightarrow> UpdateRequest \<Rightarrow> service \<Rightarrow> service" where
  "answered_at now_ms r s =
     (case UpdatePoints now_ms r (impl s) (flow s) of
        (response, impl', b) \<Rightarrow>
          s\<lparr>flow := b, acked := acked s + mset (updates_of r), impl := impl'\<rparr>)"

lemma fold_handled: "fold (\<lambda>x. applyUpdate (f x)) xs b = handled_alone (map f xs) b"
proof (induction xs arbitrary: b)
  case Nil
  show ?case by (simp add: handled_alone_def)
next
  case (Cons x xs)
  have "applyUpdate (f x) b = handled_alone [f x] b"
    by (simp add: applyUpdate_def notify_one_def push_update_def handled_alone_def)
  with Cons.IH show ?case by simp
qed

lemma handled_twice: "handled_alone vs (handled_alone us b) = handled_alone (us @ vs) b"
  by (simp add: handled_alone_def wake_def)

lemma answered_at_flow:
  "answered_at now_ms r s = s\<lparr>flow := handled_alone (updates_of r) (flow s),
     acked := acked s + mset (updates_of r), impl := (impl s)\<lparr>last_update_ms := now_ms\<rparr>\<rparr>"
  by (simp add: answered_at_def UpdatePoints_def Let_def fold_handled handled_twice updates_of_def)

lemma request_answered:
  assumes "serving (proc s)"
  shows "(sstep q)\<^sup>*\<^sup>* s (answered_at now_ms r s)"
proof -
  let ?s1 = "s\<lparr>handlers := add_mset \<lparr>pushed = updates_of r, todo = [], notifying = False\<rparr> (handlers s),
    flow := handled_alone (updates_of r) (flow s)\<rparr>"
  have "sstep q ?s1 (?s1\<lparr>handlers := handlers s, acked := acked s + mset (updates_of r),
      impl := (impl s)\<lparr>last_update_ms := now_ms\<rparr>\<rparr>)"
    using handler_answers [of "updates_of r" ?s1 q now_ms] by simp
  moreover have "?s1\<lparr>handlers := handlers s, acked := acked s + mset (updates_of r),
      impl := (impl s)\<lparr>last_update_ms := now_ms\<rparr>\<rparr> = answered_at now_ms r s"
    unfolding answered_at_flow by (cases s) simp
  ultimately show ?thesis using request_queues [OF assms, of q r] by (metis rtranclp.rtrancl_into_rtrancl)
qed

definition sample_request :: UpdateRequest where
  "sample_request =
     \<lparr>analogs = [\<lparr>am_index = 4, am_value = Fin False 6, am_quality = 3\<rparr>],
      binaries = [\<lparr>bm_index = 1, bm_value = True, bm_quality = 2\<rparr>], counters = []\<rparr>"

lemma sample_request_updates:
  "updates_of sample_request =
     [Analog_update \<lparr>au_index = 4, au_value = Fin False 6, au_quality = Restart\<rparr>,
      Binary_update \<lparr>bu_index = 1, bu_value = True, bu_quality = Bad\<rparr>]"
  by (simp add: sample_request_def updates_of_def analog_update_of_def binary_update_of_def
      toQuality_def point_quality_values)

lemma initial_service: "service_initial lib cfg (in_service (the (boot lib cfg)))"
  using boot_ready [of lib cfg sample_quality] by (auto simp: service_initial_def)

section \<open>An early shutdown loses what is acknowledged\<close>

text \<open>The bridge of the running service after a stop with nothing queued.\<close>

definition stopped_bridge :: "bridge \<Rightarrow> bridge" where
  "stopped_bridge b =
     map_out shutdown (b\<lparr>running := False, stop_mark := length (accepted b), flush := Exited,
       control := Outside\<rparr>)"

text \<open>\<open>main\<close> has found no server to stop and is past the outstation; the server starts only now.\<close>

definition late_server :: "service \<Rightarrow> service" where
  "late_server s =
     s\<lparr>flow := stopped_bridge (flow s),
       proc := launched\<lparr>shutdown_requested := True, main_at := Joining_server,
         server_at := Waiting, server_set := True\<rparr>\<rparr>"

text \<open>\<open>main\<close> inside \<open>OutstationManager::shutdown\<close>, before \<open>DNP3Manager::Shutdown\<close>.\<close>

definition released_service :: "service \<Rightarrow> service" where
  "released_service s =
     s\<lparr>proc := launched\<lparr>shutdown_requested := True, main_at := Stopping_outstation\<rparr>,
       flow := map_out release_outstation ((flow s)\<lparr>running := False, stop_mark := length (accepted (flow s)),
         flush := Exited, control := Outside\<rparr>)\<rparr>"

lemma released_service_reachable:
  assumes "service_initial lib cfg s"
  shows "sreachable q lib cfg (released_service s)"
proof -
  note init = service_initial_fields [OF assms]
  let ?p = "launched\<lparr>shutdown_requested := True\<rparr>"
  let ?f1 = "flow s\<lparr>running := False, control := Notifying_all, stop_mark := length (accepted (flow s))\<rparr>"
  let ?f2 = "?f1\<lparr>control := Joining\<rparr>"
  let ?s1 = "s\<lparr>proc := ?p\<rparr>"
  let ?s2 = "s\<lparr>proc := ?p\<lparr>main_at := Stopping_server\<rparr>\<rparr>"
  let ?s3 = "s\<lparr>proc := ?p\<lparr>main_at := Stopping_bridge\<rparr>\<rparr>"
  let ?s4 = "?s3\<lparr>flow := ?f1\<rparr>"
  let ?s5 = "?s3\<lparr>flow := ?f2\<rparr>"
  let ?s6 = "?s3\<lparr>flow := ?f2\<lparr>flush := Exited\<rparr>\<rparr>"
  let ?s7 = "?s3\<lparr>flow := ?f2\<lparr>flush := Exited, control := Outside\<rparr>\<rparr>"
  let ?s8 = "?s7\<lparr>proc := ?p\<lparr>main_at := Stopping_outstation\<rparr>\<rparr>"
  have "sreachable q lib cfg s" using assms by (rule sreachable_initial)
  then have "sreachable q lib cfg ?s1" by (rule sreachable_step)
    (use process_moves [of s ?p q] signal_handler [of "proc s"] init(1) in simp)
  then have "sreachable q lib cfg ?s2" by (rule sreachable_step)
    (use process_moves [of ?s1 "?p\<lparr>main_at := Stopping_server\<rparr>" q] see_request [of ?p] in
      \<open>simp add: launched_def\<close>)
  then have "sreachable q lib cfg ?s3" by (rule sreachable_step)
    (use server_stops [of ?s2 q] in \<open>simp add: launched_def\<close>)
  then have "sreachable q lib cfg ?s4" by (rule sreachable_step)
    (use bridge_stopping [of ?s3 Stop q ?f1] init(5,7) in \<open>simp add: stop_flag_def\<close>)
  then have "sreachable q lib cfg ?s5" by (rule sreachable_step)
    (use bridge_stopping [of ?s4 Notify_all q ?f2] init(6) in \<open>simp add: notify_all_def wake_def\<close>)
  then have "sreachable q lib cfg ?s6" by (rule sreachable_step)
    (use flush_steps [of Test q ?s5 "?f2\<lparr>flush := Exited\<rparr>"] init(6,8) in
      \<open>simp add: test_predicate_def\<close>)
  then have "sreachable q lib cfg ?s7" by (rule sreachable_step)
    (use bridge_stopping [of ?s6 Join q "?f2\<lparr>flush := Exited, control := Outside\<rparr>"] in
      \<open>simp add: join_thread_def\<close>)
  then have "sreachable q lib cfg ?s8" by (rule sreachable_step)
    (use bridge_stopped [of ?s7 q] in simp)
  then show ?thesis by (rule sreachable_step)
    (use outstation_released [of ?s8 q] init(12) in \<open>simp add: start_def Let_def released_service_def\<close>)
qed

lemma late_server_reachable:
  assumes "service_initial lib cfg s"
  shows "sreachable q lib cfg (late_server s)"
proof -
  note init = service_initial_fields [OF assms]
  let ?s8 = "released_service s"
  let ?s9 = "?s8\<lparr>proc := (proc ?s8)\<lparr>main_at := Joining_server\<rparr>, flow := map_out stop_manager (flow ?s8)\<rparr>"
  have "sreachable q lib cfg ?s8" using assms by (rule released_service_reachable)
  then have "sreachable q lib cfg ?s9" by (rule sreachable_step)
    (use manager_shuts_down [of ?s8 q] init(2) in
      \<open>simp add: idle_threads_def released_service_def map_out_def release_outstation_def\<close>)
  then show ?thesis by (rule sreachable_step)
    (use process_moves [of ?s9 "(proc ?s9)\<lparr>server_at := Waiting, server_set := True\<rparr>" q]
       build_and_start [of "proc ?s9"] in
      \<open>simp add: launched_def late_server_def released_service_def stopped_bridge_def shutdown_def map_out_def\<close>)
qed

text \<open>
  A command can still arrive when \<open>outstation_\<close> is null already: opendnp3 is only then told to shut
  down.
\<close>

lemma command_after_release:
  "\<exists>s. sreachable q lib cfg s \<and> outstation (out (flow s)) = None \<and> asked s = [(cmd, index)] \<and>
     \<not> finished (phase (cmds s) 0)"
proof -
  define s where "s = released_service (in_service (the (boot lib cfg)))"
  define t where "t = s\<lparr>cmds := begin_operate cmd index (cmds s), asked := asked s @ [(cmd, index)]\<rparr>"
  note init = service_initial_fields [OF initial_service, of lib cfg]
  have "manager (out (flow s))"
    by (simp add: s_def released_service_def release_outstation_def init start_def Let_def)
  then have "sstep q s t" unfolding t_def by (rule command_arrives)
  moreover have "sreachable q lib cfg s"
    unfolding s_def by (rule released_service_reachable [OF initial_service])
  ultimately have "sreachable q lib cfg t" by (blast intro: sreachable_step)
  moreover have "outstation (out (flow t)) = None" "asked t = [(cmd, index)]" "\<not> finished (phase (cmds t) 0)"
    by (simp_all add: t_def s_def released_service_def release_outstation_def init begin_operate_request
        idle_threads_def)
  ultimately show ?thesis by blast
qed

text \<open>The flush thread is gone and main waits for a server that nobody stops: for ever.\<close>

definition stranded :: "PointUpdate list \<Rightarrow> service \<Rightarrow> bool" where
  "stranded us s \<longleftrightarrow>
     main_at (proc s) = Joining_server \<and> server_at (proc s) = Waiting \<and> \<not> server_shut (proc s) \<and>
     flush (flow s) = Exited \<and> delivered (flow s) = [] \<and> (\<exists>vs. queue (flow s) = us @ vs)"

lemma stranded_step: "sstep q s t \<Longrightarrow> stranded us s \<Longrightarrow> stranded us t"
  by (erule sstep.cases)
    (auto simp: stranded_def replace_handler_def bridge_ops wake_def simp del: perform.simps
      elim!: pstepE flushing.elims split: if_splits)

lemma stranded_stays: "(sstep q)\<^sup>*\<^sup>* s t \<Longrightarrow> stranded us s \<Longrightarrow> stranded us t"
  by (induction rule: rtranclp_induct) (auto intro: stranded_step)

text \<open>
  C29: A signal handled before \<open>server_\<close> is assigned turns the bridge into one that accepts updates
  and applies none: \<open>main\<close> finds no server to stop, stops the bridge and the outstation and waits
  for the server thread; the server starts, and from there every request is answered with
  success, its updates stay in the queue, nothing is ever delivered and \<open>main\<close> never returns.
\<close>

theorem acknowledged_but_lost:
  "\<exists>s. sreachable q lib cfg s \<and> acked s = mset (updates_of r) \<and> handlers s = {#} \<and>
     {t. (sstep q)\<^sup>*\<^sup>* s t} \<subseteq> {t. \<exists>vs. queue (flow t) = updates_of r @ vs \<and>
        delivered (flow t) = [] \<and> main_at (proc t) = Joining_server}"
proof -
  define s where "s = late_server (in_service (the (boot lib cfg)))"
  define t where "t = answered_at 0 r s"
  note init = service_initial_fields [OF initial_service, of lib cfg]
  have s: "serving (proc s)" "handlers s = {#}" "acked s = {#}"
    "main_at (proc s) = Joining_server" "server_at (proc s) = Waiting" "\<not> server_shut (proc s)"
    "flush (flow s) = Exited" "delivered (flow s) = []" "queue (flow s) = []"
    using init by (simp_all add: s_def late_server_def stopped_bridge_def serving_def launched_def)
  have "sreachable q lib cfg s" unfolding s_def by (rule late_server_reachable [OF initial_service])
  then have "sreachable q lib cfg t" unfolding t_def
    using request_answered [OF s(1)] by (rule services.reachable_steps)
  moreover have "stranded (updates_of r) t"
    by (simp add: t_def answered_at_flow stranded_def handled_alone_def wake_def s)
  ultimately show ?thesis
    using stranded_stays [of q t _ "updates_of r"] s(2,3)
    by (intro exI [of _ t]) (auto simp: stranded_def t_def answered_at_flow)
qed

section \<open>Witnesses\<close>

text \<open>The server is up, a request is queued and not yet answered, and a signal has arrived.\<close>

definition busy_service :: service where
  "busy_service =
     (let s = in_service (the (boot sample_defaults default_AppConfig)) in
      s\<lparr>handlers := {#\<lparr>pushed = updates_of sample_request, todo = [], notifying = False\<rparr>#},
        flow := handled_alone (updates_of sample_request) (flow s),
        proc := launched\<lparr>server_at := Waiting, server_set := True, shutdown_requested := True\<rparr>\<rparr>)"

abbreviation sample_service :: "service \<Rightarrow> bool" where
  "sample_service \<equiv> sreachable sample_quality sample_defaults default_AppConfig"

lemma busy_service_reachable: "sample_service busy_service"
proof -
  let ?s = "in_service (the (boot sample_defaults default_AppConfig))"
  note init = service_initial_fields [OF initial_service, of sample_defaults default_AppConfig]
  let ?p = "launched\<lparr>server_at := Waiting, server_set := True\<rparr>"
  let ?s1 = "?s\<lparr>proc := ?p\<rparr>"
  let ?s2 = "?s1\<lparr>handlers := {#\<lparr>pushed = updates_of sample_request, todo = [], notifying = False\<rparr>#},
    flow := handled_alone (updates_of sample_request) (flow ?s)\<rparr>"
  have "sample_service ?s" by (rule sreachable_initial [OF initial_service])
  then have "sample_service ?s1" by (rule sreachable_step)
    (use process_moves [of ?s ?p sample_quality] build_and_start [of "proc ?s"] init(1) in
      \<open>simp add: launched_def\<close>)
  moreover have "(sstep sample_quality)\<^sup>*\<^sup>* ?s1 ?s2"
    using request_queues [of ?s1 sample_quality sample_request] init(3)
    by (simp add: serving_def launched_def)
  ultimately have "sample_service ?s2" by (rule services.reachable_steps)
  then show ?thesis by (rule sreachable_step)
    (use process_moves [of ?s2 "?p\<lparr>shutdown_requested := True\<rparr>" sample_quality]
       signal_handler [of ?p] in \<open>simp add: busy_service_def Let_def launched_def\<close>)
qed

lemma busy_service_process:
  "proc busy_service = \<lparr>main_at = Polling, server_at = Waiting, shutdown_requested = True,
     server_set = True, server_shut = False\<rparr>"
  "handlers busy_service = {#\<lparr>pushed = updates_of sample_request, todo = [], notifying = False\<rparr>#}"
  by (simp_all add: busy_service_def Let_def launched_def)

lemma busy_service_ready:
  "settled (proc busy_service)" "shutdown_requested (proc busy_service)"
  "stop_sees_server (proc busy_service)"
  by (simp_all add: busy_service_process settled_def stop_sees_server_def)

text \<open>The updates of the request stay accepted whatever follows.\<close>

lemma accepted_grows: "(sstep q)\<^sup>*\<^sup>* s t \<Longrightarrow> \<exists>vs. accepted (flow t) = accepted (flow s) @ vs"
proof (induction rule: rtranclp_induct)
  case (step t u)
  have "\<exists>vs. accepted (flow u) = accepted (flow t) @ vs"
    using step.hyps(2)
  proof cases
    case (bridge_stopping a b)
    then show ?thesis using inner_frame [OF bridge_stopping(4)] by simp
  next
    case (flush_steps a b)
    then show ?thesis using inner_frame [OF flush_steps(3)] by auto
  next
    case (handler_notifies ps us b)
    then show ?thesis by (auto simp: replace_handler_def notify_one_def split: if_splits)
  qed (simp_all add: replace_handler_def push_update_def)
  with step.IH show ?case by auto
qed simp

text \<open>A service that has gone through the whole shutdown.\<close>

lemma finished_service:
  obtains t where "sample_service t" "server_shut (proc t)" "main_at (proc t) = Exited_0"
    "\<exists>vs. accepted (flow t) = updates_of sample_request @ vs"
proof -
  obtain n t where t: "(own_step sample_quality ^^ n) busy_service t" "main_at (proc t) = Exited_0"
    using own_run_to_end [OF busy_service_reachable busy_service_ready(1,2)] by blast
  from t(1) have run: "(sstep sample_quality)\<^sup>*\<^sup>* busy_service t" by (rule own_run_steps)
  have "accepted (flow busy_service) = updates_of sample_request"
    by (simp add: busy_service_def Let_def handled_alone_def service_initial_fields [OF initial_service])
  moreover have "server_shut (proc t)"
    using stop_sees_server_stays [OF run busy_service_ready(3)] t(2) by (simp add: stop_sees_server_def)
  ultimately show ?thesis
    using that [of t] services.reachable_steps [OF busy_service_reachable run] t(2)
      accepted_grows [OF run] by auto
qed

theorem orderly_shutdown_applies_all_witness:
  "\<exists>t vs. sample_service t \<and> main_at (proc t) = Exited_0 \<and> mset (accepted (flow t)) = acked t \<and>
     accepted (flow t) = updates_of sample_request @ vs"
proof -
  obtain t where t: "sample_service t" "server_shut (proc t)" "main_at (proc t) = Exited_0"
    "\<exists>vs. accepted (flow t) = updates_of sample_request @ vs" by (rule finished_service)
  with orderly_shutdown_applies_all [OF t(1,2)] show ?thesis by auto
qed

theorem every_shutdown_completes_witness:
  "\<exists>n t vs. (own_step sample_quality ^^ n) busy_service t \<and> n \<le> work busy_service \<and>
     map content_of (applied (out (flow t))) = [Analog_content (Fin False 6) 3 4, Binary_content True 0 1] @ vs"
proof -
  obtain n t where t: "(own_step sample_quality ^^ n) busy_service t" "main_at (proc t) = Exited_0"
    using own_run_to_end [OF busy_service_reachable busy_service_ready(1,2)] by blast
  note ended = every_shutdown_completes [OF busy_service_reachable busy_service_ready(1,2) t(1)]
  obtain vs where "accepted (flow t) = accepted (flow busy_service) @ vs"
    using accepted_grows [OF own_run_steps [OF t(1)]] by blast
  moreover have "accepted (flow busy_service) = updates_of sample_request"
    by (simp add: busy_service_def Let_def handled_alone_def service_initial_fields [OF initial_service])
  ultimately show ?thesis using ended t busy_service_ready(3)
    by (intro exI [of _ n] exI [of _ t] exI [of _ "map (expected_content sample_quality) vs"])
      (simp add: sample_request_updates sample_quality_def)
qed

end
