(* ===== verification/CommandFlow.thy ===== *)
theory CommandFlow
  imports ServiceShutdown
begin

text \<open>
  Commands through the running service: from the call of \<open>Operate\<close> that opendnp3 makes
  (\<open>src/src/dnp3/ForwardingCommandHandler.cpp\<close>) over the dispatcher and the stream of the client to
  \<open>RespondToCommand\<close> and back to the status that \<open>Operate\<close> returns.
\<close>

section \<open>What Operate returns\<close>

text \<open>
  How the call of \<open>dispatch\<close> inside an \<open>Operate\<close> has ended, and what \<open>Operate\<close>, called with the command
  recorded for that call, makes of it. There is nothing yet while the call is in progress.
\<close>

fun dispatch_ended :: "phase \<Rightarrow> (unit, CommandStatus) outcome option" where
  "dispatch_ended (Returned status) = Some (Ret status)"
| "dispatch_ended Raised = Some (Throw ())"
| "dispatch_ended Idle = None"
| "dispatch_ended (Numbered cid) = None"
| "dispatch_ended (Registered cid) = None"
| "dispatch_ended (Writing cid w) = None"
| "dispatch_ended (Dropping cid status) = None"
| "dispatch_ended (Awaiting cid) = None"
| "dispatch_ended (Expired cid) = None"

definition operate_returns :: "service \<Rightarrow> call \<Rightarrow> CommandStatus option" where
  "operate_returns s c =
     (case dispatch_ended (phase (cmds s) c) of
        None \<Rightarrow> None
      | Some result \<Rightarrow>
          (case asked s ! c of (cmd, index) \<Rightarrow>
             Some (fst (Operate (\<lambda>request d. (result, d)) cmd index ()))))"

lemma finished_dispatch: "finished pc \<longleftrightarrow> dispatch_ended pc \<noteq> None"
  by (cases pc) simp_all

lemma operate_returns_iff:
  "operate_returns s c = Some status \<longleftrightarrow>
     phase (cmds s) c = Returned status \<or> phase (cmds s) c = Raised \<and> status = DOWNSTREAM_FAIL"
  by (cases "phase (cmds s) c")
    (auto simp: operate_returns_def Operate_guarded guarded_def split: prod.split)

section \<open>Where requests and answers come from\<close>

text \<open>Every call of \<open>dispatch\<close> is that of one recorded \<open>Operate\<close>, with the request of its command.\<close>

definition calls_of_commands :: "service \<Rightarrow> bool" where
  "calls_of_commands s \<longleftrightarrow> length (asked s) = made (cmds s) \<and>
     (\<forall>c < made (cmds s).
        requests (cmds s) c = (request_of (fst (asked s ! c)) (snd (asked s ! c)))\<lparr>command_id := call_id c\<rparr>)"

definition acks_of_replies :: "service \<Rightarrow> bool" where
  "acks_of_replies s \<longleftrightarrow>
     (\<forall>a \<in> set (acks (cmds s)). \<exists>resp \<in> set (replies s).
        response_command_id resp = ack_id a \<and> toCommandStatus (response_status resp) = ack_status a)"

text \<open>Only the beginning of a call changes the requests, only an answer the acknowledgements.\<close>

lemma perform_other:
  assumes "perform a s = Some t" and "internal a \<or> a = Open_stream w \<or> a = Close_stream w"
  shows "made t = made s \<and> requests t = requests s \<and> acks t = acks s"
  by (cases a) (use assms in \<open>auto simp: ops_Some split: if_splits option.splits\<close>)

lemma answer_acks:
  "made (snd (answer cid status s)) = made s" "requests (snd (answer cid status s)) = requests s"
  "set (acks (snd (answer cid status s))) \<subseteq>
     {a. a \<in> set (acks s) \<or> ack_id a = cid \<and> ack_status a = status}"
  by (cases "pending (disp s) cid"; force simp: answer_accepted answer_refused)+

lemma calls_of_commands_step:
  assumes "sstep q s t" and "numbering (cmds s)" and "calls_of_commands s"
  shows "calls_of_commands t"
  using assms(1)
proof cases
  case (command_arrives cmd index)
  have "next_id (disp (cmds s)) = call_id (made (cmds s))" using assms(2) by (simp add: numbering_def)
  with command_arrives(1) assms(3) show ?thesis
    by (auto simp: calls_of_commands_def begin_operate_request less_Suc_eq nth_append)
next
  case (command_steps a d)
  with perform_other [OF command_steps(3)] assms(3) show ?thesis by (simp add: calls_of_commands_def)
next
  case (client_responds resp d)
  then show ?thesis using assms(3) by (auto simp: calls_of_commands_def answer_acks)
next
  case (stream_opens w d)
  with perform_other [OF stream_opens(3)] assms(3) show ?thesis by (simp add: calls_of_commands_def)
next
  case (stream_closes w d)
  with perform_other [OF stream_closes(2)] assms(3) show ?thesis by (simp add: calls_of_commands_def)
qed (use assms(3) in \<open>simp_all add: calls_of_commands_def replace_handler_def\<close>)

lemma service_calls_of_commands: "sreachable q lib cfg s \<Longrightarrow> calls_of_commands s"
  by (rule services.invariant_with [where P = calls_of_commands and Q = "\<lambda>s. numbering (cmds s)"])
    (blast intro: calls_of_commands_step reachable_parts(1) service_components(3)
      | simp add: calls_of_commands_def service_initial_fields idle_threads_def)+

lemma acks_of_replies_step:
  assumes "sstep q s t" and "acks_of_replies s"
  shows "acks_of_replies t"
  using assms(1)
proof cases
  case (command_arrives cmd index)
  then show ?thesis using assms(2) by (simp add: acks_of_replies_def begin_operate_request)
next
  case (command_steps a d)
  with perform_other [OF command_steps(3)] assms(2) show ?thesis by (simp add: acks_of_replies_def)
next
  case (client_responds resp d)
  then show ?thesis
    using assms(2) answer_acks(3) [of "response_command_id resp" "toCommandStatus (response_status resp)" "cmds s"]
    by (fastforce simp: acks_of_replies_def)
next
  case (stream_opens w d)
  with perform_other [OF stream_opens(3)] assms(2) show ?thesis by (simp add: acks_of_replies_def)
next
  case (stream_closes w d)
  with perform_other [OF stream_closes(2)] assms(2) show ?thesis by (simp add: acks_of_replies_def)
qed (use assms(2) in \<open>simp_all add: acks_of_replies_def replace_handler_def\<close>)

lemma service_acks_of_replies: "sreachable q lib cfg s \<Longrightarrow> acks_of_replies s"
  by (rule services.invariant [where P = acks_of_replies])
    (blast intro: acks_of_replies_step
      | simp add: acks_of_replies_def service_initial_fields idle_threads_def)+

section \<open>The way of a command\<close>

lemma decode_ignores_id [simp]: "decode_request (r\<lparr>command_id := i\<rparr>) = decode_request r"
  by (simp add: decode_request_def)

lemma command_of_call:
  assumes "calls_of_commands s" and "c < made (cmds s)"
  obtains cmd index where "c < length (asked s)" "asked s ! c = (cmd, index)"
    "decode_request (requests (cmds s) c) = Some (index, forwarded_as cmd)"
    "command_id (requests (cmds s) c) = call_id c"
  using assms decode_request_forwarded that [of "fst (asked s ! c)" "snd (asked s ! c)"]
  by (simp add: calls_of_commands_def)

lemma reply_of_result:
  assumes "answered (cmds s)" and "acks_of_replies s" and "results (disp (cmds s)) c = Some status"
  shows "\<exists>resp \<in> set (replies s). response_command_id resp = call_id c \<and>
    toCommandStatus (response_status resp) = status"
proof -
  obtain a where "a \<in> set (acks (cmds s))" "ack_id a = call_id c" "ack_status a = status"
    using assms(1,3) by (fastforce simp: answered_def)
  with assms(2) show ?thesis unfolding acks_of_replies_def by metis
qed

lemma success_code: "toCommandStatus i = SUCCESS \<Longrightarrow> i = COMMAND_RESULT_SUCCESS"
  using toCommandStatus_faithful [of i] by (simp add: command_result_values)

text \<open>
  C12: In the running service the SCADA hears of a command what the client said of that command.
  The \<open>c\<close>-th \<open>Operate\<close>, when it has returned, was called with the command and the point recorded for
  it, and the client reads exactly this point and this command from its request (of a relay
  operation the bridge does not know, NUL). If \<open>Write\<close> returned true for that request, on a stream
  of the client, the status is TIMEOUT or that of a response of the client that carries the id of
  this very request; SUCCESS means that the client answered with the code for success. Otherwise
  the status is NOT_SUPPORTED and the request was never handed to a stream, or DOWNSTREAM_FAIL.
\<close>

theorem operate_reports_the_client:
  assumes "sreachable q lib cfg s" and "operate_returns s c = Some status"
  shows "\<exists>cmd index. c < length (asked s) \<and> asked s ! c = (cmd, index) \<and>
    decode_request (requests (cmds s) c) = Some (index, forwarded_as cmd) \<and>
    command_id (requests (cmds s) c) = call_id c \<and>
    (if c \<in> set (written (cmds s))
     then (\<exists>w. (c, w, requests (cmds s) c) \<in> set (sent (cmds s))) \<and>
       (status = TIMEOUT \<or>
        (\<exists>resp \<in> set (replies s). response_command_id resp = call_id c \<and>
           toCommandStatus (response_status resp) = status \<and>
           (status = SUCCESS \<longrightarrow> response_status resp = COMMAND_RESULT_SUCCESS)))
     else status = DOWNSTREAM_FAIL \<or>
       status = NOT_SUPPORTED \<and> (\<forall>w r. (c, w, r) \<notin> set (sent (cmds s))))"
proof -
  note reach = service_components(3) [OF assms(1)]
  have own: "(c, w, r) \<in> set (sent (cmds s)) \<Longrightarrow> r = requests (cmds s) c" for w r
    using reachable_sending [OF reach] by (simp add: sending_def)
  have ended: "phase (cmds s) c = Returned status \<or> phase (cmds s) c = Raised \<and> status = DOWNSTREAM_FAIL"
    using assms(2) by (simp add: operate_returns_iff)
  then have "c < made (cmds s)" using numbering_made [OF reachable_parts(1) [OF reach]] by fastforce
  then obtain cmd index where call: "c < length (asked s)" "asked s ! c = (cmd, index)"
    "decode_request (requests (cmds s) c) = Some (index, forwarded_as cmd)"
    "command_id (requests (cmds s) c) = call_id c"
    by (rule command_of_call [OF service_calls_of_commands [OF assms(1)]])
  have verdict: "if c \<in> set (written (cmds s))
      then c \<in> fst ` set (sent (cmds s)) \<and> (results (disp (cmds s)) c = Some status \<or> status = TIMEOUT)
      else status = DOWNSTREAM_FAIL \<or> status = NOT_SUPPORTED \<and> c \<notin> fst ` set (sent (cmds s))"
    using ended reachable_verdict [OF reach, of c] by (auto simp: verdict_of_def split: if_splits del: imageE)
  have "\<exists>w. (c, w, requests (cmds s) c) \<in> set (sent (cmds s))" if "c \<in> fst ` set (sent (cmds s))"
    using that own by auto
  moreover have "(c, w, r) \<notin> set (sent (cmds s))" if "c \<notin> fst ` set (sent (cmds s))" for w r
    using that by force
  moreover note reply_of_result [OF reachable_parts(3) [OF reach] service_acks_of_replies [OF assms(1)], of c status]
    success_code
  ultimately show ?thesis using call verdict
    by (intro exI [of _ cmd] exI [of _ index]) (auto split: if_splits)
qed

text \<open>A relay command answered with success over stream 7.\<close>

definition latch_on :: command where
  "latch_on = Relay \<lparr>opType = LATCH_ON, count = 1, onTimeMS = 0, offTimeMS = 0\<rparr>"

text \<open>The steps of the dispatcher alone are steps of the service.\<close>

lemma internal_steps:
  assumes "perform_all as (cmds s) = Some d" and "list_all internal as"
  shows "(sstep q)\<^sup>*\<^sup>* s (s\<lparr>cmds := d\<rparr>)"
  using assms
proof (induction as arbitrary: s)
  case (Cons a as)
  then obtain e where e: "perform a (cmds s) = Some e" "perform_all as e = Some d"
    by (auto split: option.splits)
  have "sstep q s (s\<lparr>cmds := e\<rparr>)" using Cons.prems(2) e(1) by (intro command_steps) simp_all
  moreover have "(sstep q)\<^sup>*\<^sup>* (s\<lparr>cmds := e\<rparr>) (s\<lparr>cmds := e\<rparr>\<lparr>cmds := d\<rparr>)"
    by (rule Cons.IH) (use Cons.prems(2) e(2) in simp_all)
  ultimately show ?case by (simp add: converse_rtranclp_into_rtranclp)
qed auto

lemma internal_reachable:
  "sreachable q lib cfg s \<Longrightarrow> perform_all as (cmds s) = Some d \<Longrightarrow> list_all internal as \<Longrightarrow>
   sreachable q lib cfg (s\<lparr>cmds := d\<rparr>)"
  by (rule services.reachable_steps [OF _ internal_steps])

definition forwarding_run :: "action list" where
  "forwarding_run =
     [Open_stream 7, Begin (request_of latch_on 3), Register 0, Enter_writer 0,
      Finish_write 0 (Wrote True)]"

definition latched :: service where
  "latched = (in_service (the (boot sample_defaults default_AppConfig)))
     \<lparr>proc := launched\<lparr>server_at := Waiting, server_set := True\<rparr>,
      asked := [(latch_on, 3)],
      replies := [\<lparr>response_command_id = 1, response_status = COMMAND_RESULT_SUCCESS\<rparr>],
      cmds := run_from_start (forwarding_run @ [Answer 1 SUCCESS, Get 0])\<rparr>"

lemma latched_reachable: "sample_service latched"
proof -
  let ?s = "in_service (the (boot sample_defaults default_AppConfig))"
  let ?p = "launched\<lparr>server_at := Waiting, server_set := True\<rparr>"
  let ?resp = "\<lparr>response_command_id = 1, response_status = COMMAND_RESULT_SUCCESS\<rparr>"
  let ?asked = "[(latch_on, 3 :: u16)]"
  let ?s1 = "?s\<lparr>proc := ?p\<rparr>"
  let ?d2 = "run_from_start [Open_stream 7]"
  let ?d3 = "run_from_start [Open_stream 7, Begin (request_of latch_on 3)]"
  let ?d4 = "run_from_start forwarding_run"
  let ?d5 = "run_from_start (forwarding_run @ [Answer 1 SUCCESS])"
  let ?d6 = "run_from_start (forwarding_run @ [Answer 1 SUCCESS, Get 0])"
  note init = service_initial_fields [OF initial_service, of sample_defaults default_AppConfig]
  have alive: "manager (out (flow ?s))" by (simp add: init start_def Let_def)
  have run: "perform_all [Register 0, Enter_writer 0, Finish_write 0 (Wrote True)] ?d3 = Some ?d4"
    "perform_all [Get 0] ?d5 = Some ?d6"
    "perform (Open_stream 7) idle_threads = Some ?d2"
    "begin_operate latch_on 3 ?d2 = ?d3"
    "perform (Answer 1 SUCCESS) ?d4 = Some ?d5"
    by (simp_all add: forwarding_run_def begin_operate_request run_simps)
  have "sample_service ?s" by (rule sreachable_initial [OF initial_service])
  then have "sample_service ?s1" by (rule sreachable_step)
    (use process_moves [of ?s ?p sample_quality] build_and_start [of "proc ?s"] init(1) in
      \<open>simp add: launched_def\<close>)
  then have "sample_service (?s1\<lparr>cmds := ?d2\<rparr>)" by (rule sreachable_step)
    (use stream_opens [of ?s1 7 ?d2 sample_quality] run(3) init(2) in \<open>simp add: serving_def launched_def\<close>)
  then have "sample_service (?s1\<lparr>cmds := ?d3, asked := ?asked\<rparr>)" by (rule sreachable_step)
    (use command_arrives [of "?s1\<lparr>cmds := ?d2\<rparr>" sample_quality latch_on 3] run(4) alive init(13) in simp)
  then have "sample_service (?s1\<lparr>asked := ?asked, cmds := ?d4\<rparr>)"
    using internal_reachable [of sample_quality sample_defaults default_AppConfig
        "?s1\<lparr>cmds := ?d3, asked := ?asked\<rparr>"
        "[Register 0, Enter_writer 0, Finish_write 0 (Wrote True)]" ?d4] run(1) by simp
  then have "sample_service (?s1\<lparr>asked := ?asked, cmds := ?d5, replies := [?resp]\<rparr>)" by (rule sreachable_step)
    (use client_responds [of "?s1\<lparr>asked := ?asked, cmds := ?d4\<rparr>" ?resp ?d5 sample_quality] run(5) init(14) in
      \<open>simp add: serving_def launched_def toCommandStatus_def\<close>)
  then have "sample_service (?s1\<lparr>asked := ?asked, replies := [?resp], cmds := ?d6\<rparr>)"
    using internal_reachable [of sample_quality sample_defaults default_AppConfig
        "?s1\<lparr>asked := ?asked, cmds := ?d5, replies := [?resp]\<rparr>" "[Get 0]" ?d6] run(2) by simp
  then show ?thesis by (simp add: latched_def)
qed

text \<open>The client reads from the request the very command that was recorded, and its answer arrives.\<close>

theorem operate_reports_the_client_witness:
  "operate_returns latched 0 = Some SUCCESS \<and> asked latched ! 0 = (latch_on, 3) \<and>
   decode_request (requests (cmds latched) 0) = Some (3, latch_on) \<and>
   (\<exists>resp \<in> set (replies latched). response_command_id resp = call_id 0 \<and>
      response_status resp = COMMAND_RESULT_SUCCESS)"
proof -
  have "phase (cmds latched) 0 = Returned SUCCESS" "0 \<in> set (written (cmds latched))"
    by (simp_all add: latched_def forwarding_run_def run_simps)
  then have "operate_returns latched 0 = Some SUCCESS" by (simp add: operate_returns_iff)
  with operate_reports_the_client [OF latched_reachable this] \<open>0 \<in> set (written (cmds latched))\<close>
  show ?thesis by (auto simp: latched_def latch_on_def)
qed

end
