(* ===== verification/Program.thy ===== *)
theory Program
  imports CommandFlow
begin

text \<open>
  The whole of the service: \<open>main\<close> from its arguments to the launch of the server thread, composed
  of the parts in \<open>Lifecycle\<close>, \<open>Startup\<close> and \<open>Service\<close>, and what holds of the running service
  because of the configuration it was started with. The signal handler that \<open>main\<close> installs on the
  way is a step of \<open>Lifecycle\<close>.
\<close>

section \<open>From the arguments to the running service\<close>

text \<open>
  \<open>main\<close> ends with a code and a text on stderr, or it has logged its report and serves. Exceptions
  of the JSON library, of the file sink and of opendnp3 are those of \<open>outcome\<close>: \<open>main\<close> catches none.
\<close>

datatype 'l program = Exits int string | Serves "'l logger" "log_call list" service

definition config_path :: "string list \<Rightarrow> string option" where
  "config_path argv = (if 2 \<le> length argv then Some (argv ! 1) else None)"

definition main_until_service ::
  "('j, 'x) json_api \<Rightarrow> (string \<Rightarrow> string option) \<Rightarrow> (string \<Rightarrow> string + 'j) \<Rightarrow> nat
     \<Rightarrow> (string \<Rightarrow> string option) \<Rightarrow> (string \<Rightarrow> nat \<Rightarrow> u32 \<Rightarrow> 'x option) \<Rightarrow> (string \<Rightarrow> 'l)
     \<Rightarrow> string \<Rightarrow> 'x stack_library \<Rightarrow> library_defaults \<Rightarrow> string list \<Rightarrow> ('x, 'l program) outcome" where
  "main_until_service api read_file parse width getenv open_file from_str version net lib argv =
     and_then (configure api read_file parse width getenv argv)
       (\<lambda>st. case st of
          Exit_with code msg \<Rightarrow> Ret (Exits code msg)
        | Run cfg \<Rightarrow>
            and_then (make_logger width open_file from_str cfg)
              (\<lambda>logger. and_then (boot_on net lib cfg)
                 (\<lambda>c. Ret (Serves logger (config_lines version (config_path argv) cfg) (in_service c)))))"

lemma configure_cases:
  "configure api read_file parse width getenv argv = Ret (Run cfg) \<longleftrightarrow>
     load api read_file parse width getenv (config_path argv) = Ret (Inr cfg) \<and>
     validatePointDatabase (point_database cfg) = Inr ()"
  "configure api read_file parse width getenv argv = Ret (Exit_with code msg) \<longleftrightarrow>
     code = 1 \<and> (\<exists>e. msg = ''Failed to load configuration: '' @ e @ [CHR 0x0A] \<and>
       (load api read_file parse width getenv (config_path argv) = Ret (Inl e) \<or>
        (\<exists>cfg. load api read_file parse width getenv (config_path argv) = Ret (Inr cfg) \<and>
           validatePointDatabase (point_database cfg) = Inl e)))"
  unfolding configure_def config_path_def [symmetric]
  by (cases "load api read_file parse width getenv (config_path argv)";
      auto split: sum.splits)+

lemma service_initial_boot: "service_initial lib cfg s \<longleftrightarrow> s = in_service (the (boot lib cfg))"
  using initial_service [of lib cfg] by (auto simp: service_initial_def)

lemma boot_on_outcomes:
  "boot_on net lib cfg = Ret c \<longleftrightarrow> stack_refused net lib cfg = None \<and> c = the (boot lib cfg)"
  "boot_on net lib cfg = Throw e \<longleftrightarrow> stack_refused net lib cfg = Some e"
  by (auto simp: boot_on_cases split: option.splits)

lemma program_outcomes:
  "main_until_service api read_file parse width getenv open_file from_str version net lib argv =
      Ret (Serves logger lines s) \<longleftrightarrow>
    (\<exists>cfg. configure api read_file parse width getenv argv = Ret (Run cfg) \<and>
       make_logger width open_file from_str cfg = Ret logger \<and> stack_refused net lib cfg = None \<and>
       lines = config_lines version (config_path argv) cfg \<and> s = in_service (the (boot lib cfg)))"
  "main_until_service api read_file parse width getenv open_file from_str version net lib argv =
      Ret (Exits code msg) \<longleftrightarrow>
    configure api read_file parse width getenv argv = Ret (Exit_with code msg)"
  "main_until_service api read_file parse width getenv open_file from_str version net lib argv =
      Throw x \<longleftrightarrow>
    configure api read_file parse width getenv argv = Throw x \<or>
    (\<exists>cfg. configure api read_file parse width getenv argv = Ret (Run cfg) \<and>
       (make_logger width open_file from_str cfg = Throw x \<or>
        (\<exists>logger. make_logger width open_file from_str cfg = Ret logger) \<and>
          stack_refused net lib cfg = Some x))"
  by (cases "configure api read_file parse width getenv argv";
      auto simp: main_until_service_def and_then_eq_Ret and_then_eq_Throw boot_on_outcomes
        split: startup.splits)+

lemma configure_throws:
  "configure api read_file parse width getenv argv = Throw x \<longleftrightarrow>
     load api read_file parse width getenv (config_path argv) = Throw x"
  unfolding configure_def config_path_def [symmetric]
  by (cases "load api read_file parse width getenv (config_path argv)"; auto split: sum.splits)

text \<open>
  C40: The service runs on a configuration it accepted, or not at all: \<open>main\<close> gets to serving
  exactly when the configuration loads, its point database is valid, the logger can be made and
  opendnp3 accepts the endpoint and the outstation of that configuration; then the service is in
  its initial state for it. It ends early with code 1, printing the error of the load or of the
  validation, or by an exception that nothing catches: of the load, of the logger, or of opendnp3
  refusing the endpoint or the outstation.
\<close>

theorem serves_only_valid_configuration:
  "(main_until_service api read_file parse width getenv open_file from_str version net lib argv =
      Ret (Serves logger lines s) \<longleftrightarrow>
    (\<exists>cfg. load api read_file parse width getenv (config_path argv) = Ret (Inr cfg) \<and>
       validatePointDatabase (point_database cfg) = Inr () \<and>
       make_logger width open_file from_str cfg = Ret logger \<and> stack_refused net lib cfg = None \<and>
       lines = config_lines version (config_path argv) cfg \<and> service_initial lib cfg s)) \<and>
   (main_until_service api read_file parse width getenv open_file from_str version net lib argv =
      Ret (Exits code msg) \<longleftrightarrow>
    code = 1 \<and> (\<exists>e. msg = ''Failed to load configuration: '' @ e @ [CHR 0x0A] \<and>
      (load api read_file parse width getenv (config_path argv) = Ret (Inl e) \<or>
       (\<exists>cfg. load api read_file parse width getenv (config_path argv) = Ret (Inr cfg) \<and>
          validatePointDatabase (point_database cfg) = Inl e)))) \<and>
   (main_until_service api read_file parse width getenv open_file from_str version net lib argv =
      Throw x \<longleftrightarrow>
    load api read_file parse width getenv (config_path argv) = Throw x \<or>
    (\<exists>cfg. load api read_file parse width getenv (config_path argv) = Ret (Inr cfg) \<and>
       validatePointDatabase (point_database cfg) = Inr () \<and>
       (make_logger width open_file from_str cfg = Throw x \<or>
        (\<exists>logger. make_logger width open_file from_str cfg = Ret logger) \<and>
          stack_refused net lib cfg = Some x)))"
  unfolding program_outcomes configure_cases configure_throws service_initial_boot by blast

section \<open>Updates reach the outstation\<close>

lemma drained_service:
  assumes "sreachable q lib cfg s" and "queue (flow s) = []" and "batch (flush (flow s)) = []"
  shows "map content_of (applied (out (flow s))) = map (expected_content q) (accepted (flow s))"
  using service_flow_ok [OF assms(1)] service_applied_ok [OF assms(1)] assms(2,3)
  by (simp add: flow_ok_def applied_ok_def)

section \<open>The configuration at work\<close>

text \<open>Two outstations that agree in all that an update reads and writes.\<close>

definition same_points :: "OutstationManager \<Rightarrow> OutstationManager \<Rightarrow> bool" where
  "same_points m m' \<longleftrightarrow>
     applied m = applied m' \<and> analog_state m = analog_state m' \<and> binary_state m = binary_state m' \<and>
     analog_deadband m = analog_deadband m'"

lemma same_points_deliver:
  assumes "same_points m m'" and "outstation m \<noteq> None" and "outstation m' \<noteq> None"
  shows "same_points (deliver q u m) (deliver q u m')"
  using assms
  by (cases u) (simp_all add: same_points_def updateAnalog_def updateBinary_def deadband_of_def Let_def)

definition delivered_exactly :: "AnalogQuality \<Rightarrow> OutstationManager \<Rightarrow> bridge \<Rightarrow> bool" where
  "delivered_exactly q m b \<longleftrightarrow> same_points (out b) (deliver_all q (delivered b) m)"

lemma deliver_all_started: "outstation m \<noteq> None \<Longrightarrow> outstation (deliver_all q us m) \<noteq> None"
  unfolding deliver_all_def
  using analogs.ok_all [OF running_self, of m q us] by (simp add: running_with_def)

lemma inner_delivered:
  assumes "bridge_perform q a b = Some b'" and "flushing a \<or> a = Spurious_wakeup \<or> stopping a"
    and "flush b = Exited \<or> outstation (out b) \<noteq> None" and "outstation m \<noteq> None"
    and "delivered_exactly q m b"
  shows "delivered_exactly q m b'"
  by (cases a)
    (use assms same_points_deliver [OF _ _ deliver_all_started [OF assms(4)]] in
      \<open>auto simp: bridge_ops delivered_exactly_def deliver_all_snoc simp del: not_None_eq
        split: if_splits flush_pc.splits list.splits\<close>)

lemma service_delivered_exactly:
  "sreachable q lib cfg s \<Longrightarrow> delivered_exactly q (start lib (new_OutstationManager cfg)) (flow s)"
proof (rule services.invariant_with [where Q = stages_ok
      and P = "\<lambda>s. delivered_exactly q (start lib (new_OutstationManager cfg)) (flow s)"])
  let ?m = "start lib (new_OutstationManager cfg)"
  show "service_initial lib cfg s \<Longrightarrow> delivered_exactly q ?m (flow s)" for s
    by (simp add: delivered_exactly_def same_points_def service_initial_fields deliver_all_def)
  fix s t
  assume step: "sstep q s t" and stages: "stages_ok s" and ok: "delivered_exactly q ?m (flow s)"
  have started: "outstation ?m \<noteq> None" by (simp add: start_def Let_def)
  have running: "flush (flow s) = Exited \<or> outstation (out (flow s)) \<noteq> None"
    using stages by (auto simp: stages_ok_def)
  from step show "delivered_exactly q ?m (flow t)"
  proof cases
    case (bridge_stopping a b)
    then show ?thesis using inner_delivered [OF bridge_stopping(4) _ running started ok] by simp
  next
    case (flush_steps a b)
    then show ?thesis using inner_delivered [OF flush_steps(3) _ running started ok] by auto
  next
    case (handler_notifies ps us b)
    then show ?thesis using ok
      by (auto simp: delivered_exactly_def replace_handler_def notify_one_def split: if_splits)
  qed (use ok in \<open>simp_all add: delivered_exactly_def same_points_def replace_handler_def
        push_update_def shutdown_parts OnStateChange_def\<close>)
qed (auto intro: service_stages_ok)

text \<open>What the configuration says of the deadband of an analog input.\<close>

definition deadband_in :: "library_defaults \<Rightarrow> AppConfig \<Rightarrow> u16 \<Rightarrow> double" where
  "deadband_in lib cfg index =
     (let db = point_database cfg; entries = filter (covers index) (analog_input db)
      in if point_database_empty db then (if index \<le> 20 then a_deadband (fresh_analog lib) else zero_double)
         else if entries = [] then zero_double
         else last_given deadband entries (a_deadband (fresh_analog lib)))"

lemma started_deadband:
  assumes "validatePointDatabase (point_database cfg) = Inr ()"
    and "db_analog_input (fresh_database lib) = []"
  shows "deadband_of index (start lib (new_OutstationManager cfg)) = deadband_in lib cfg index"
proof (cases "point_database_empty (point_database cfg)")
  case True
  then show ?thesis using assms(2)
    by (simp add: start_deadband start_database_def deadband_in_def new_OutstationManager_def
        configureDefaultDatabase_def map_of_range_from_0)
next
  case False
  then show ?thesis
    using configured_deadband [OF assms, of index]
    by (auto simp: start_deadband start_database_def deadband_in_def analog_setting_def
        new_OutstationManager_def filter_empty_conv Let_def)
qed

section \<open>Witnesses\<close>

text \<open>An opendnp3 that accepts whatever it is given.\<close>

definition sample_stack :: "string stack_library" where
  "sample_stack = \<lparr>AddTCPServer = (\<lambda>host port. None), AddOutstation = (\<lambda>cfg. None)\<rparr>"

theorem serves_only_valid_configuration_witness:
  "main_until_service sample_api (\<lambda>f. None) (\<lambda>t. Inl t) 64 (\<lambda>name. None) (\<lambda>f size n. None) (\<lambda>s. s)
     ''1.0'' sample_stack sample_defaults [''dnp3-bridge'', ''missing.json''] =
   Ret (Exits 1 (''Failed to load configuration: cannot open config file: missing.json'' @ [CHR 0x0A]))"
proof -
  have "load sample_api (\<lambda>f. None) (\<lambda>t. Inl t) 64 (\<lambda>name. None)
      (config_path [''dnp3-bridge'', ''missing.json'']) =
    Ret (Inl ''cannot open config file: missing.json'')" by code_simp
  with serves_only_valid_configuration [THEN conjunct2, THEN conjunct1, of sample_api "\<lambda>f. None"
      "\<lambda>t. Inl t" 64 "\<lambda>name. None" "\<lambda>f size n. None" "\<lambda>s. s" "''1.0''" sample_stack sample_defaults
      "[''dnp3-bridge'', ''missing.json'']" 1
      "''Failed to load configuration: cannot open config file: missing.json'' @ [CHR 0x0A]"]
  show ?thesis by simp
qed

lemma sample_main_serves:
  "\<exists>logger lines. main_until_service sample_api (\<lambda>f. None) (\<lambda>t. Inl t) 64 (\<lambda>name. None)
     (\<lambda>f size n. None) (\<lambda>s. s) ''1.0'' sample_stack sample_defaults [''dnp3-bridge''] =
   Ret (Serves logger lines (in_service (the (boot sample_defaults default_AppConfig))))"
proof -
  have "load sample_api (\<lambda>f. None) (\<lambda>t. Inl t) 64 (\<lambda>name. None) (config_path [''dnp3-bridge'']) =
      Ret (Inr default_AppConfig)" by code_simp
  moreover have "validatePointDatabase (point_database default_AppConfig) = Inr ()" by code_simp
  ultimately have "configure sample_api (\<lambda>f. None) (\<lambda>t. Inl t) 64 (\<lambda>name. None) [''dnp3-bridge''] =
      Ret (Run default_AppConfig)" by (simp add: configure_cases)
  moreover have "make_logger 64 (\<lambda>f size n. None :: string option) (\<lambda>s. s) default_AppConfig =
      Ret \<lparr>logger_name = ''dnp3-bridge'', sinks = [Stderr_sink], level = ''info'',
        pattern = ''[%Y-%m-%d %H:%M:%S.%e] [%l] %v''\<rparr>" by code_simp
  ultimately show ?thesis
    by (simp add: main_until_service_def boot_on_cases stack_refused_def sample_stack_def)
qed

text \<open>The service of the defaults, after one request has been answered and delivered.\<close>

lemma sample_delivery:
  obtains t vs where
    "(sstep sample_quality)\<^sup>*\<^sup>* (in_service (the (boot sample_defaults default_AppConfig))) t"
    "delivered (flow t) = updates_of sample_request @ vs"
proof -
  let ?s = "in_service (the (boot sample_defaults default_AppConfig))"
  let ?p = "launched\<lparr>server_at := Waiting, server_set := True\<rparr>"
  let ?s1 = "?s\<lparr>proc := ?p\<rparr>"
  let ?s2 = "answered_at 5 sample_request ?s1"
  note init = service_initial_fields [OF initial_service, of sample_defaults default_AppConfig]
  have "sstep sample_quality ?s ?s1"
    using process_moves [of ?s ?p sample_quality] build_and_start [of "proc ?s"] init(1)
    by (simp add: launched_def)
  moreover have "(sstep sample_quality)\<^sup>*\<^sup>* ?s1 ?s2"
    by (rule request_answered) (simp add: serving_def launched_def)
  ultimately have run: "(sstep sample_quality)\<^sup>*\<^sup>* ?s ?s2" by (rule converse_rtranclp_into_rtranclp)
  have reach: "sample_service ?s2"
    by (rule services.reachable_steps [OF sreachable_initial [OF initial_service] run])
  have server: "stop_sees_server (proc ?s2)"
    by (simp add: answered_at_flow launched_def stop_sees_server_def)
  obtain n t where t: "(own_step sample_quality ^^ n) ?s2 t" "\<not> (\<exists>u. own_step sample_quality t u)"
    using own_run_to_rest [OF reach] by blast
  note own = own_run_steps [OF t(1)] and rest = at_rest [OF own_run(1) [OF t(1) reach] t(2)]
  have "queue (flow t) = []" using rest(3) stop_sees_server_stays [OF own server] .
  then have "delivered (flow t) = accepted (flow t)"
    using service_flow_ok [OF own_run(1) [OF t(1) reach]] rest(2) by (simp add: flow_ok_def)
  moreover obtain vs where "accepted (flow t) = accepted (flow ?s2) @ vs"
    using accepted_grows [OF own] by blast
  ultimately have "delivered (flow t) = updates_of sample_request @ vs"
    by (simp add: answered_at_flow handled_alone_def init)
  then show ?thesis by (rule that [OF rtranclp_trans [OF run own]])
qed

end
