(* ===== verification/Teardown.thy ===== *)
theory Teardown
  imports CommandFlow
begin

text \<open>
  The end of \<open>main\<close> in \<open>src/src/main.cpp\<close>: what is in use while the components are stopped, and the
  destructors of the components, which run when \<open>main\<close> returns and stop what is still running
  (\<open>src/src/grpc/GrpcServer.cpp\<close>, \<open>src/src/bridge/Bridge.cpp\<close>,
  \<open>src/src/dnp3/OutstationManager.cpp\<close>).
\<close>

section \<open>Destructors\<close>

definition destroy_server :: "process \<Rightarrow> process" where
  "destroy_server p = (if server_set p then p\<lparr>server_shut := True\<rparr> else p)"

text \<open>
  The destructor of the bridge calls \<open>stop\<close>, then that of \<open>flush_thread_\<close> joins. It is done at once
  when the flag is cleared and the thread has left \<open>flushLoop\<close> (or was never launched); otherwise
  it would have to wait, which is \<open>None\<close>.
\<close>

definition destroy_bridge :: "bridge \<Rightarrow> bridge option" where
  "destroy_bridge b =
     (case stop_flag b of
        Some b' \<Rightarrow>
          if control b' = Outside \<and> (flush b' = Exited \<or> flush b' = No_thread) then Some b' else None
      | None \<Rightarrow> None)"

definition destroy_outstation :: "OutstationManager \<Rightarrow> OutstationManager" where
  "destroy_outstation m = shutdown m"

text \<open>In the reverse of their construction; the service and the dispatcher have nothing to stop.\<close>

definition destroy_components :: "service \<Rightarrow> service option" where
  "destroy_components s =
     map_option (\<lambda>b. s\<lparr>proc := destroy_server (proc s), flow := map_out destroy_outstation b\<rparr>)
       (destroy_bridge (flow s))"

section \<open>What is gone stays gone\<close>

text \<open>A server that was never set has served nobody; outstation and channel are dropped together.\<close>

definition unserved_ok :: "service \<Rightarrow> bool" where
  "unserved_ok s \<longleftrightarrow>
     (\<not> server_set (proc s) \<longrightarrow> handlers s = {#} \<and> streams (cmds s) = Map.empty)"

definition cleared :: "OutstationManager \<Rightarrow> bool" where
  "cleared m \<longleftrightarrow>
     (outstation m = None \<longrightarrow> \<not> channel m)"

lemma unserved_ok_step:
  assumes "sstep q s t" and "unserved_ok s"
  shows "unserved_ok t"
  using assms(1)
proof cases
  case (process_moves p)
  then show ?thesis
    using assms(2) process_moves_frame [OF process_moves(2,3)] by (auto simp: unserved_ok_def)
next
  case (command_arrives cmd index)
  then show ?thesis using assms(2) by (simp add: unserved_ok_def begin_operate_request)
next
  case (command_steps a d)
  then show ?thesis
    using assms(2) internal_frame [OF command_steps(2,3)] by (simp add: unserved_ok_def)
next
  case (stream_closes w d)
  then show ?thesis using assms(2) by (auto simp: unserved_ok_def close_stream_Some)
qed (use assms(2) in \<open>auto simp: unserved_ok_def serving_def replace_handler_def\<close>)

lemma service_unserved_ok: "sreachable q lib cfg s \<Longrightarrow> unserved_ok s"
  by (rule services.invariant [where P = unserved_ok])
    (blast intro: unserved_ok_step
      | simp add: unserved_ok_def service_initial_fields idle_threads_def)+

lemma cleared_deliver: "cleared m \<Longrightarrow> cleared (deliver q u m)"
  by (cases u) (simp_all add: cleared_def updateAnalog_def updateBinary_def Let_def)

lemma cleared_inner: "bridge_perform q a b = Some b' \<Longrightarrow> cleared (out b) \<Longrightarrow> cleared (out b')"
  by (cases a) (auto simp: bridge_ops cleared_deliver split: if_splits flush_pc.splits list.splits)

lemma cleared_parts:
  "cleared (release_outstation m)" "cleared m \<Longrightarrow> cleared (stop_manager m)"
  "cleared m \<Longrightarrow> cleared (OnStateChange st m)"
  by (simp_all add: cleared_def shutdown_parts OnStateChange_def)

lemma cleared_step: "sstep q s t \<Longrightarrow> cleared (out (flow s)) \<Longrightarrow> cleared (out (flow t))"
  by (erule sstep.cases)
    (auto simp: replace_handler_def push_update_def notify_one_def cleared_parts
      simp del: perform.simps bridge_perform.simps split: if_splits dest: cleared_inner)

lemma service_cleared: "sreachable q lib cfg s \<Longrightarrow> cleared (out (flow s))"
  by (rule services.invariant [where P = "\<lambda>s. cleared (out (flow s))"])
    (blast intro: cleared_step | simp add: cleared_def service_initial_fields start_def Let_def)+

text \<open>A server that was set has returned only because it was shut down.\<close>

definition returned_ok :: "process \<Rightarrow> bool" where
  "returned_ok p \<longleftrightarrow>
     (server_at p = Building \<longrightarrow> \<not> server_set p) \<and>
     (server_set p \<and> server_at p = Returned_from_start \<longrightarrow> server_shut p)"

lemma preachable_returned_ok: "preachable p \<Longrightarrow> returned_ok p"
proof (rule processes.invariant [where P = returned_ok])
  fix p q
  assume "pstep p q" and "returned_ok p"
  then show "returned_ok q" by cases (auto simp: returned_ok_def)
qed (auto simp: returned_ok_def launched_def)

section \<open>Nothing is used after it is gone\<close>

lemma all_calls_over:
  assumes "dreachable s" and "\<forall>c < made s. finished (phase s c)" and "streams s = Map.empty"
  shows "pending (disp s) = Map.empty" "active_writer (disp s) = None"
proof -
  have "entered pc \<Longrightarrow> pc \<noteq> Idle \<and> \<not> finished pc" for pc by (cases pc) simp_all
  then have "\<not> entered (phase s c)" for c
    using assms(2) numbering_made [OF reachable_parts(1) [OF assms(1)]] by blast
  then have "pending (disp s) i = None" for i
    using entriesD [OF reachable_parts(2) [OF assms(1)], of i] by fastforce
  then show "pending (disp s) = Map.empty" by blast
  show "active_writer (disp s) = None"
    using reachable_parts(6) [OF assms(1)] assms(3)
    by (cases "active_writer (disp s)") (auto simp: live_writer_def)
qed

lemma nobody_writes:
  assumes "dreachable s" and "streams s = Map.empty"
  shows "active_writer (disp s) = None" "phase s c \<noteq> Writing cid w"
proof -
  show "active_writer (disp s) = None"
    using reachable_parts(6) [OF assms(1)] assms(2)
    by (cases "active_writer (disp s)") (auto simp: live_writer_def)
  then show "phase s c \<noteq> Writing cid w"
    using live_writer_writing [OF reachable_parts(6) [OF assms(1)]] by fastforce
qed

text \<open>The manager is never there again, and without it no command arrives.\<close>

lemma manager_gone_step:
  "sstep q s t \<Longrightarrow> \<not> manager (out (flow s)) \<Longrightarrow> \<not> manager (out (flow t)) \<and> asked t = asked s"
  by (erule sstep.cases)
    (auto simp: replace_handler_def push_update_def notify_one_def shutdown_parts
      simp del: perform.simps bridge_perform.simps split: if_splits dest: inner_frame)

lemma after_the_manager:
  assumes "sreachable q lib cfg s" and "\<not> manager (out (flow s))" and "(sstep q)\<^sup>*\<^sup>* s t"
  shows "outstation (out (flow t)) = None \<and> (\<forall>c < made (cmds t). finished (phase (cmds t) c)) \<and>
    asked t = asked s"
proof -
  have "\<not> manager (out (flow t)) \<and> asked t = asked s"
    using assms(3,2) by (induction rule: rtranclp_induct) (auto dest: manager_gone_step)
  moreover have "sreachable q lib cfg t" using assms(1,3) by (rule services.reachable_steps)
  ultimately show ?thesis
    using service_stages_ok [of q lib cfg t] service_calls_done [of q lib cfg t]
    by (auto simp: stages_ok_def calls_done_def)
qed

text \<open>All that the destructors still do to the outstation is to clear its flag once more.\<close>

definition flag_cleared :: "service \<Rightarrow> service" where
  "flag_cleared s = s\<lparr>flow := map_out (\<lambda>m. m\<lparr>connected := False\<rparr>) (flow s)\<rparr>"

lemma at_the_end:
  assumes "sreachable q lib cfg s" and "main_at (proc s) = Exited_0"
  shows "destroy_components s = Some (flag_cleared s)" "handlers s = {#}" "streams (cmds s) = Map.empty"
    "server_set (proc s) \<longrightarrow> server_shut (proc s)"
proof -
  note stages = service_stages_ok [OF assms(1), unfolded stages_ok_def] 
  have "server_at (proc s) = Returned_from_start"
    using service_components(2) [OF assms(1)] assms(2) by (simp add: orderly_def)
  then show shut: "server_set (proc s) \<longrightarrow> server_shut (proc s)"
    using preachable_returned_ok [OF service_components(1) [OF assms(1)]] by (simp add: returned_ok_def)
  then show "handlers s = {#}" "streams (cmds s) = Map.empty"
    using stages service_unserved_ok [OF assms(1)] by (auto simp: unserved_ok_def)
  have "destroy_server (proc s) = proc s" using shut by (simp add: destroy_server_def)
  moreover have "destroy_bridge (flow s) = Some (flow s)"
    using stages assms(2) by (simp add: destroy_bridge_def stop_flag_def)
  moreover have "destroy_outstation (out (flow s)) = (out (flow s))\<lparr>connected := False\<rparr>"
    using stages assms(2) service_cleared [OF assms(1)]
    by (simp add: destroy_outstation_def shutdown_fields cleared_def)
  ultimately show "destroy_components s = Some (flag_cleared s)"
    by (simp add: destroy_components_def flag_cleared_def map_out_def)
qed

text \<open>
  C19: Nothing is used after it is gone, also while \<open>OutstationManager::shutdown\<close> is on its way and
  opendnp3 still calls back. Before \<open>outstation_\<close> is reset the flush thread has exited, so no
  update meets a null outstation, and an update in hand means a living one. Once
  \<open>DNP3Manager::Shutdown\<close> has returned, no \<open>Operate\<close> is running and none begins any more. Once a running
  server has been shut down, no handler of an update or of a stream is left, no writer is
  registered and no command is inside \<open>Write\<close>, although commands may still arrive. And when \<open>main\<close> has
  come to its end, the destructors of server, bridge and outstation need not wait and change
  nothing but the connection flag, and the dispatcher holds no promise and no writer.
\<close>

theorem users_gone_before_objects:
  assumes "sreachable q lib cfg s"
  shows "(outstation (out (flow s)) = None \<longrightarrow> flush (flow s) = Exited \<and> batch (flush (flow s)) = []) \<and>
    (\<not> manager (out (flow s)) \<and> (sstep q)\<^sup>*\<^sup>* s t \<longrightarrow> outstation (out (flow t)) = None \<and>
      (\<forall>c < made (cmds t). finished (phase (cmds t) c)) \<and> asked t = asked s) \<and>
    (server_shut (proc s) \<longrightarrow> handlers s = {#} \<and> streams (cmds s) = Map.empty \<and>
      active_writer (disp (cmds s)) = None \<and> (\<forall>c cid w. phase (cmds s) c \<noteq> Writing cid w)) \<and>
    (main_at (proc s) = Exited_0 \<longrightarrow> destroy_components s = Some (flag_cleared s) \<and>
      handlers s = {#} \<and> pending (disp (cmds s)) = Map.empty \<and> active_writer (disp (cmds s)) = None)"
proof (intro conjI impI)
  note stages = service_stages_ok [OF assms, unfolded stages_ok_def]
  note calls = service_calls_done [OF assms, unfolded calls_done_def]
  note reach = service_components(3) [OF assms]
  show "flush (flow s) = Exited" "batch (flush (flow s)) = []" if "outstation (out (flow s)) = None"
    using stages that by simp_all
  show "handlers s = {#}" "streams (cmds s) = Map.empty" if "server_shut (proc s)"
    using stages that by simp_all
  then show "active_writer (disp (cmds s)) = None" "\<forall>c cid w. phase (cmds s) c \<noteq> Writing cid w"
    if "server_shut (proc s)" using nobody_writes [OF reach] that by blast+
  show "outstation (out (flow t)) = None" "\<forall>c < made (cmds t). finished (phase (cmds t) c)" "asked t = asked s"
    if "\<not> manager (out (flow s)) \<and> (sstep q)\<^sup>*\<^sup>* s t"
    using after_the_manager [OF assms, of t] that by blast+
  assume exit: "main_at (proc s) = Exited_0"
  note ended = at_the_end [OF assms exit]
  have "\<forall>c < made (cmds s). finished (phase (cmds s) c)" using calls exit by simp
  note over = all_calls_over [OF reach this ended(3)]
  show "destroy_components s = Some (flag_cleared s)" "handlers s = {#}"
    "pending (disp (cmds s)) = Map.empty" "active_writer (disp (cmds s)) = None" by (fact ended over)+
qed

theorem users_gone_before_objects_witness:
  "\<exists>t. sample_service t \<and> outstation (out (flow t)) = None \<and> flush (flow t) = Exited \<and>
     streams (cmds t) = Map.empty \<and> destroy_components t = Some (flag_cleared t)"
proof -
  obtain t where t: "sample_service t" "server_shut (proc t)" "main_at (proc t) = Exited_0"
    by (rule finished_service)
  have "outstation (out (flow t)) = None"
    using service_stages_ok [OF t(1)] t(3) by (simp add: stages_ok_def)
  with users_gone_before_objects [OF t(1)] t show ?thesis by auto
qed

end
