(* ===== verification/MasterModel.thy ===== *)
theory MasterModel
  imports CppText Float64
begin

text \<open>
  The data of the test master, \<open>src/tools/dnp3-master-sim\<close>: the point names of
  \<open>PointNames.hpp\<close>, the shared \<open>DataModel\<close> of \<open>DataModel.hpp\<close>, and the callbacks of
  \<open>SoeHandler.cpp\<close> that fill it with what the outstation sends. The steady clock is an
  argument, in nanoseconds (\<open>now\<close>, and \<open>later\<close> where it is read a second time for the log); \<open>notify_\<close> is the
  list of events posted to the screen.
\<close>

section \<open>Point names\<close>

definition kBinaryInputNames :: "string list" where
  "kBinaryInputNames =
     [''Equipamento Energizado'', ''Equipamento Operando'', ''Alarme'',
      ''Operacao Local/Remoto'', ''Botoeira de Emergencia'', ''Status Desequilibrio'',
      ''Status Reativo'', ''Status Suporte de Tensao'', ''Status Regulacao de Tensao'',
      ''Status Compensacao Harmonica'', ''Erro de IGBT'']"

definition kBinaryOutputNames :: "string list" where
  "kBinaryOutputNames =
     [''Conectar Equipamento'', ''Desconectar Equipamento'', ''Reset Protecao'',
      ''Emergencia'', ''Ativa Desequilibrio'', ''Desativa Desequilibrio'',
      ''Ativa Suporte de Tensao'', ''Desativa Suporte de Tensao'',
      ''Ativa Regulacao de Tensao'', ''Desativa Regulacao de Tensao'',
      ''Ativa Compensacao Harmonica'', ''Desativa Compensacao Harmonica'',
      ''Compensa Harmonica 3'', ''Compensa Harmonica 5'', ''Compensa Harmonica 7'',
      ''Compensa Harmonica 9'', ''Compensa Harmonica 11'', ''Compensacao Harmonica Completa'',
      ''Aciona Ventilador Painel'', ''Aciona Ventilador Ponte'']"

definition kAnalogInputNames :: "string list" where
  "kAnalogInputNames =
     [''Tensao Fase A'', ''Tensao Fase B'', ''Tensao Fase C'', ''Corrente Fase A'',
      ''Corrente Fase B'', ''Corrente Fase C'', ''Corrente Neutro'', ''THD Tensao Fase A'',
      ''THD Tensao Fase B'', ''THD Tensao Fase C'', ''THD Corrente Fase A'',
      ''THD Corrente Fase B'', ''THD Corrente Fase C'', ''Desequilibrio Negativo'',
      ''Desequilibrio Zero'', ''Tensao Link CC'', ''Temperatura Ponte'',
      ''Estado Atual de Operacao'', ''Modo Reativo'', ''Modo Harmonicos'', ''Codigo de Falta'']"

definition kAnalogOutputNames :: "string list" where
  "kAnalogOutputNames =
     [''Ref. Regulacao de Tensao'', ''Limite Corrente Deseq. Neg.'',
      ''Limite Corrente Deseq. Zero'', ''Limite Corrente Reativo'',
      ''Limite Corrente Harmonico'']"

definition pointName :: "string list \<Rightarrow> u16 \<Rightarrow> string" where
  "pointName table index = (if unat index < length table then table ! unat index else ''unknown'')"

lemmas name_arrays =
  kBinaryInputNames_def kBinaryOutputNames_def kAnalogInputNames_def kAnalogOutputNames_def

lemma name_array_lengths [simp]:
  "length kBinaryInputNames = 11" "length kBinaryOutputNames = 20"
  "length kAnalogInputNames = 21" "length kAnalogOutputNames = 5"
  by (simp_all add: name_arrays)

section \<open>Data model\<close>

record PointValue =
  pv_value :: double
  pv_flags :: u8
  received :: bool
  last_update :: int

record LogEntry =
  log_text :: string
  timestamp :: int

record DataModel =
  binary_inputs :: "u16 \<rightharpoonup> PointValue"
  analog_inputs :: "u16 \<rightharpoonup> PointValue"
  binary_outputs :: "u16 \<rightharpoonup> PointValue"
  analog_outputs :: "u16 \<rightharpoonup> PointValue"
  event_log :: "LogEntry list"
  sim_connected :: bool
  last_poll_type :: string
  last_poll_time :: string

definition new_DataModel :: DataModel where
  "new_DataModel =
     \<lparr>binary_inputs = Map.empty, analog_inputs = Map.empty, binary_outputs = Map.empty,
      analog_outputs = Map.empty, event_log = [], sim_connected = False,
      last_poll_type = [], last_poll_time = []\<rparr>"

definition kMaxLogEntries :: nat where
  "kMaxLogEntries = 200"

definition push_log :: "LogEntry \<Rightarrow> LogEntry list \<Rightarrow> LogEntry list" where
  "push_log e log = (if kMaxLogEntries \<le> length log then tl log else log) @ [e]"

definition addLog :: "int \<Rightarrow> string \<Rightarrow> DataModel \<Rightarrow> DataModel" where
  "addLog now s m = m\<lparr>event_log := push_log \<lparr>log_text = s, timestamp = now\<rparr> (event_log m)\<rparr>"

section \<open>Events of the screen\<close>

text \<open>
  The ftxui events the program distinguishes. A character event carries the UTF-8 text of the
  character.
\<close>

datatype Event =
  Escape | ArrowUp | ArrowDown | Return | Character string | Custom | Other_event nat

section \<open>Measurements received\<close>

text \<open>A measurement of a collection: index, value and flags.\<close>

record 'v Indexed =
  ix_index :: u16
  ix_value :: 'v
  ix_flags :: u8

definition one_double :: double where
  "one_double = Fin False one_units"

definition point_of :: "int \<Rightarrow> double \<Rightarrow> u8 \<Rightarrow> PointValue" where
  "point_of now v flags = \<lparr>pv_value = v, pv_flags = flags, received = True, last_update = now\<rparr>"

definition of_bool_value :: "bool \<Rightarrow> double" where
  "of_bool_value b = (if b then one_double else Fin False 0)"

definition received_log :: "nat \<Rightarrow> string \<Rightarrow> string" where
  "received_log count kind = ''Received '' @ show_nat count @ kind"

definition Process_Binary ::
  "int \<Rightarrow> int \<Rightarrow> bool Indexed list \<Rightarrow> DataModel \<Rightarrow> DataModel \<times> Event list" where
  "Process_Binary now later values m =
     (let m' = fold (\<lambda>p m. m\<lparr>binary_inputs := (binary_inputs m)
                 (ix_index p \<mapsto> point_of now (of_bool_value (ix_value p)) (ix_flags p))\<rparr>) values m
      in (addLog later (received_log (length values) '' binary input(s)'') m', [Custom]))"

definition Process_Analog ::
  "int \<Rightarrow> int \<Rightarrow> double Indexed list \<Rightarrow> DataModel \<Rightarrow> DataModel \<times> Event list" where
  "Process_Analog now later values m =
     (let m' = fold (\<lambda>p m. m\<lparr>analog_inputs := (analog_inputs m)
                 (ix_index p \<mapsto> point_of now (ix_value p) (ix_flags p))\<rparr>) values m
      in (addLog later (received_log (length values) '' analog input(s)'') m', [Custom]))"

definition Process_BinaryOutputStatus ::
  "int \<Rightarrow> int \<Rightarrow> bool Indexed list \<Rightarrow> DataModel \<Rightarrow> DataModel \<times> Event list" where
  "Process_BinaryOutputStatus now later values m =
     (let m' = fold (\<lambda>p m. m\<lparr>binary_outputs := (binary_outputs m)
                 (ix_index p \<mapsto> point_of now (of_bool_value (ix_value p)) (ix_flags p))\<rparr>) values m
      in (addLog later (received_log (length values) '' binary output status(es)'') m', [Custom]))"

definition Process_AnalogOutputStatus ::
  "int \<Rightarrow> int \<Rightarrow> double Indexed list \<Rightarrow> DataModel \<Rightarrow> DataModel \<times> Event list" where
  "Process_AnalogOutputStatus now later values m =
     (let m' = fold (\<lambda>p m. m\<lparr>analog_outputs := (analog_outputs m)
                 (ix_index p \<mapsto> point_of now (ix_value p) (ix_flags p))\<rparr>) values m
      in (addLog later (received_log (length values) '' analog output status(es)'') m', [Custom]))"

text \<open>Every other kind of measurement is ignored.\<close>

definition Process_ignored :: "'v Indexed list \<Rightarrow> DataModel \<Rightarrow> DataModel \<times> Event list" where
  "Process_ignored values m = (m, [])"

section \<open>The log is a window on its history\<close>

definition last_n :: "nat \<Rightarrow> 'a list \<Rightarrow> 'a list" where
  "last_n n xs = drop (length xs - n) xs"

lemma length_last_n [simp]: "length (last_n n xs) = min n (length xs)"
  by (simp add: last_n_def)

lemma last_n_short [simp]: "length xs \<le> n \<Longrightarrow> last_n n xs = xs"
  by (simp add: last_n_def)

lemma last_n_snoc:
  "0 < n \<Longrightarrow> last_n n (xs @ [x]) = (if n \<le> length xs then tl (last_n n xs) else last_n n xs) @ [x]"
  by (auto simp: last_n_def drop_Suc tl_drop Suc_diff_le)

lemma push_log_window:
  "push_log e (last_n kMaxLogEntries h) = last_n kMaxLogEntries (h @ [e])"
  by (simp add: push_log_def last_n_snoc kMaxLogEntries_def)

lemma fold_push_log:
  "fold push_log es (last_n kMaxLogEntries h) = last_n kMaxLogEntries (h @ es)"
proof (induction es arbitrary: h)
  case (Cons e es)
  then show ?case using Cons.IH [of "h @ [e]"] by (simp add: push_log_window)
qed simp

text \<open>
  The event log of the test master is the window of the newest 200 messages: after any
  number of \<open>addLog\<close> calls on a log within its bound, it holds the last 200 of the old entries
  followed by the new ones, in order, each with its time.
\<close>

lemma log_window:
  assumes "length (event_log m) \<le> kMaxLogEntries"
  shows "event_log (fold (\<lambda>(now, s). addLog now s) es m) =
     last_n kMaxLogEntries (event_log m @ map (\<lambda>(now, s). \<lparr>log_text = s, timestamp = now\<rparr>) es)"
proof -
  have "event_log (fold (\<lambda>(now, s). addLog now s) es m) =
      fold push_log (map (\<lambda>(now, s). \<lparr>log_text = s, timestamp = now\<rparr>) es) (event_log m)"
    by (induction es arbitrary: m) (auto simp: addLog_def)
  also have "\<dots> = fold push_log (map (\<lambda>(now, s). \<lparr>log_text = s, timestamp = now\<rparr>) es)
      (last_n kMaxLogEntries (event_log m))"
    using assms by simp
  finally show ?thesis by (simp add: fold_push_log)
qed

section \<open>The tables hold the latest measurement\<close>

text \<open>One of the four tables of the data model.\<close>

locale value_table =
  fixes table :: "DataModel \<Rightarrow> u16 \<Rightarrow> PointValue option"
    and modify :: "((u16 \<Rightarrow> PointValue option) \<Rightarrow> u16 \<Rightarrow> PointValue option) \<Rightarrow> DataModel \<Rightarrow> DataModel"
    and rest :: "DataModel \<Rightarrow> 'r"
  assumes table_modify: "table (modify f m) = f (table m)"
    and rest_modify: "rest (modify f m) = rest m"
begin

lemma table_all:
  "table (fold (\<lambda>p. modify (\<lambda>t. t(key p \<mapsto> val p))) ps m) index =
     (case map_of (rev (map (\<lambda>p. (key p, val p)) ps)) index of
        Some v \<Rightarrow> Some v | None \<Rightarrow> table m index)"
  by (induction ps rule: rev_induct) (simp_all add: table_modify)

lemma rest_all: "rest (fold (\<lambda>p. modify (\<lambda>t. t(key p \<mapsto> val p))) ps m) = rest m"
  by (induction ps rule: rev_induct) (simp_all add: rest_modify)

end

interpretation binary_inputs_table: value_table binary_inputs
    "\<lambda>f m. m\<lparr>binary_inputs := f (binary_inputs m)\<rparr>"
    "\<lambda>m. (analog_inputs m, binary_outputs m, analog_outputs m, event_log m)"
  by unfold_locales simp_all

interpretation analog_inputs_table: value_table analog_inputs
    "\<lambda>f m. m\<lparr>analog_inputs := f (analog_inputs m)\<rparr>"
    "\<lambda>m. (binary_inputs m, binary_outputs m, analog_outputs m, event_log m)"
  by unfold_locales simp_all

interpretation binary_outputs_table: value_table binary_outputs
    "\<lambda>f m. m\<lparr>binary_outputs := f (binary_outputs m)\<rparr>"
    "\<lambda>m. (binary_inputs m, analog_inputs m, analog_outputs m, event_log m)"
  by unfold_locales simp_all

interpretation analog_outputs_table: value_table analog_outputs
    "\<lambda>f m. m\<lparr>analog_outputs := f (analog_outputs m)\<rparr>"
    "\<lambda>m. (binary_inputs m, analog_inputs m, binary_outputs m, event_log m)"
  by unfold_locales simp_all

text \<open>The value a collection leaves at an index: its last measurement there, or the old one.\<close>

definition latest ::
  "int \<Rightarrow> ('v \<Rightarrow> double) \<Rightarrow> 'v Indexed list \<Rightarrow> (u16 \<rightharpoonup> PointValue) \<Rightarrow> u16 \<rightharpoonup> PointValue" where
  "latest now conv values old index =
     (case map_of (rev (map (\<lambda>p. (ix_index p, point_of now (conv (ix_value p)) (ix_flags p))) values)) index
      of Some v \<Rightarrow> Some v | None \<Rightarrow> old index)"

lemma addLog_fields [simp]:
  "binary_inputs (addLog now s m) = binary_inputs m"
  "analog_inputs (addLog now s m) = analog_inputs m"
  "binary_outputs (addLog now s m) = binary_outputs m"
  "analog_outputs (addLog now s m) = analog_outputs m"
  "sim_connected (addLog now s m) = sim_connected m"
  "event_log (addLog now s m) = push_log \<lparr>log_text = s, timestamp = now\<rparr> (event_log m)"
  by (simp_all add: addLog_def)

lemmas process_defs =
  Process_Binary_def Process_Analog_def Process_BinaryOutputStatus_def
  Process_AnalogOutputStatus_def Let_def latest_def

lemma Process_tables:
  "binary_inputs (fst (Process_Binary now later bs m)) index =
     latest now of_bool_value bs (binary_inputs m) index"
  "analog_inputs (fst (Process_Analog now later vs m)) index = latest now id vs (analog_inputs m) index"
  "binary_outputs (fst (Process_BinaryOutputStatus now later bs m)) index =
     latest now of_bool_value bs (binary_outputs m) index"
  "analog_outputs (fst (Process_AnalogOutputStatus now later vs m)) index =
     latest now id vs (analog_outputs m) index"
  by (simp_all add: process_defs binary_inputs_table.table_all analog_inputs_table.table_all
      binary_outputs_table.table_all analog_outputs_table.table_all)

text \<open>
  A callback of the SOE handler leaves in its own table, at every index, the last measurement
  of the collection for that index (value, flags, time of arrival), or what was there when the
  collection has none; the other three tables stay, one message with the exact count is logged,
  and one redraw is requested.
\<close>

theorem Process_keeps_latest:
  "binary_inputs (fst (Process_Binary now later bs m)) index =
     latest now of_bool_value bs (binary_inputs m) index \<and>
   analog_inputs (fst (Process_Analog now later vs m)) index = latest now id vs (analog_inputs m) index \<and>
   binary_outputs (fst (Process_BinaryOutputStatus now later bs m)) index =
     latest now of_bool_value bs (binary_outputs m) index \<and>
   analog_outputs (fst (Process_AnalogOutputStatus now later vs m)) index =
     latest now id vs (analog_outputs m) index \<and>
   analog_inputs (fst (Process_Binary now later bs m)) = analog_inputs m \<and>
   binary_inputs (fst (Process_Analog now later vs m)) = binary_inputs m \<and>
   binary_inputs (fst (Process_BinaryOutputStatus now later bs m)) = binary_inputs m \<and>
   analog_inputs (fst (Process_AnalogOutputStatus now later vs m)) = analog_inputs m \<and>
   event_log (fst (Process_Binary now later bs m)) =
     push_log \<lparr>log_text = ''Received '' @ show_nat (length bs) @ '' binary input(s)'', timestamp = later\<rparr>
       (event_log m) \<and>
   snd (Process_Binary now later bs m) = [Custom]"
  using binary_inputs_table.rest_all [of ix_index
      "\<lambda>p. point_of now (of_bool_value (ix_value p)) (ix_flags p)" bs m]
    binary_outputs_table.rest_all [of ix_index
      "\<lambda>p. point_of now (of_bool_value (ix_value p)) (ix_flags p)" bs m]
    analog_inputs_table.rest_all [of ix_index "\<lambda>p. point_of now (ix_value p) (ix_flags p)" vs m]
    analog_outputs_table.rest_all [of ix_index "\<lambda>p. point_of now (ix_value p) (ix_flags p)" vs m]
  by (simp only: Process_tables) (simp add: process_defs received_log_def)

end
