(* ===== verification/MasterUi.thy ===== *)
theory MasterUi
  imports MasterModel CommandHandler
begin

text \<open>
  The key handling of the test master, \<open>buildRoot\<close> in \<open>src/tools/dnp3-master-sim/Ui.cpp\<close>: the
  two command dialogs, their dispatch by the tab container, and the requests made of the DNP3
  master. What the program uses of ftxui is an argument, the record \<open>widgets\<close>: the radio box and
  the input field (with a state of their own), the event filter \<open>CatchEvent\<close> and the container
  \<open>Container::Tab\<close>; \<open>ftxui_ok\<close> states their documented behaviour.
\<close>

section \<open>State\<close>

datatype scan_mask = AllClasses | CLASS_1 | CLASS_2

text \<open>What the program asks of opendnp3's master and of the screen.\<close>

datatype master_call =
  ScanClasses scan_mask
| SelectAndOperate OperationType u16
| DirectOperate "16 word" u16
| Screen_exit

record 'w ui =
  model :: DataModel
  show_crob_modal :: bool
  show_analog_modal :: bool
  crob_index :: int
  crob_op :: int
  analog_index :: int
  analog_value_str :: string
  tab_index :: int
  calls :: "master_call list"
  widget_state :: 'w

definition new_ui :: "'w \<Rightarrow> 'w ui" where
  "new_ui w =
     \<lparr>model = new_DataModel, show_crob_modal = False, show_analog_modal = False, crob_index = 0,
      crob_op = 0, analog_index = 0, analog_value_str = ''0.0'', tab_index = 0, calls = [],
      widget_state = w\<rparr>"

text \<open>
  A handler yields whether it consumed the event, and the new state; \<open>None\<close> is an array access out
  of bounds, which has no defined behaviour.
\<close>

type_synonym 'w handler = "Event \<Rightarrow> 'w ui \<Rightarrow> (bool \<times> 'w ui) option"

record 'w widgets =
  radio_event :: "Event \<Rightarrow> 'w \<Rightarrow> int \<Rightarrow> bool \<times> 'w \<times> int"
  input_event :: "Event \<Rightarrow> 'w \<Rightarrow> string \<Rightarrow> bool \<times> 'w \<times> string"
  catch_event :: "'w handler \<Rightarrow> 'w handler \<Rightarrow> 'w handler"
  tab_event :: "('w ui \<Rightarrow> int) \<Rightarrow> 'w handler list \<Rightarrow> 'w handler"

definition log_ui :: "int \<Rightarrow> string \<Rightarrow> 'w ui \<Rightarrow> 'w ui" where
  "log_ui now s u = u\<lparr>model := addLog now s (model u)\<rparr>"

definition call_master :: "master_call \<Rightarrow> 'w ui \<Rightarrow> 'w ui" where
  "call_master c u = u\<lparr>calls := calls u @ [c]\<rparr>"

section \<open>The relay dialog\<close>

definition crob_op_entries :: "string list" where
  "crob_op_entries = [''NUL'', ''PULSE_ON'', ''PULSE_OFF'', ''LATCH_ON'', ''LATCH_OFF'']"

definition kOpTypes :: "OperationType list" where
  "kOpTypes = [NUL, PULSE_ON, PULSE_OFF, LATCH_ON, LATCH_OFF]"

definition kMaxCrobIndex :: int where
  "kMaxCrobIndex = int (length kBinaryOutputNames) - 1"

definition kMaxAnalogIndex :: int where
  "kMaxAnalogIndex = int (length kAnalogOutputNames) - 1"

definition array_at :: "'a list \<Rightarrow> int \<Rightarrow> 'a option" where
  "array_at xs i = (if 0 \<le> i \<and> i < int (length xs) then Some (xs ! nat i) else None)"

definition index_up :: "int \<Rightarrow> int \<Rightarrow> int" where
  "index_up last_index i = (if 0 < i then i - 1 else last_index)"

definition index_down :: "int \<Rightarrow> int \<Rightarrow> int" where
  "index_down last_index i = (if i < last_index then i + 1 else 0)"

definition crob_message :: "u16 \<Rightarrow> string \<Rightarrow> string" where
  "crob_message idx op =
     ''Sending CROB idx='' @ show_nat (unat idx) @ '' ('' @ pointName kBinaryOutputNames idx @
     '') op='' @ op"

definition send_crob :: "int \<Rightarrow> 'w ui \<Rightarrow> 'w ui option" where
  "send_crob now u =
     (case (array_at kOpTypes (crob_op u), array_at crob_op_entries (crob_op u)) of
        (Some op, Some name) \<Rightarrow>
          (let idx = of_int (crob_index u);
               u1 = log_ui now (crob_message idx name) u;
               u2 = call_master (SelectAndOperate op idx) u1
           in Some (u2\<lparr>show_crob_modal := False\<rparr>))
      | _ \<Rightarrow> None)"

fun crob_key :: "int \<Rightarrow> 'w handler" where
  "crob_key now Escape u = Some (True, u\<lparr>show_crob_modal := False\<rparr>)"
| "crob_key now ArrowUp u = Some (True, u\<lparr>crob_index := index_up kMaxCrobIndex (crob_index u)\<rparr>)"
| "crob_key now ArrowDown u =
     Some (True, u\<lparr>crob_index := index_down kMaxCrobIndex (crob_index u)\<rparr>)"
| "crob_key now Return u = map_option (Pair True) (send_crob now u)"
| "crob_key now (Character s) u = Some (False, u)"
| "crob_key now Custom u = Some (False, u)"
| "crob_key now (Other_event n) u = Some (False, u)"

section \<open>The analog dialog\<close>

definition analog_message :: "u16 \<Rightarrow> 16 word \<Rightarrow> string" where
  "analog_message idx v =
     ''Sending AnalogOutput idx='' @ show_nat (unat idx) @ '' ('' @
     pointName kAnalogOutputNames idx @ '') value='' @ show_int (sint v)"

definition send_analog :: "int \<Rightarrow> 'w ui \<Rightarrow> 'w ui" where
  "send_analog now u =
     (case stoi (analog_value_str u) of
        Inl e \<Rightarrow> (log_ui now ''Invalid analog value'' u)\<lparr>show_analog_modal := False\<rparr>
      | Inr i \<Rightarrow>
          (let v = of_int i; idx = of_int (analog_index u);
               u1 = log_ui now (analog_message idx v) u;
               u2 = call_master (DirectOperate v idx) u1
           in u2\<lparr>show_analog_modal := False\<rparr>))"

fun analog_key :: "int \<Rightarrow> 'w handler" where
  "analog_key now Escape u = Some (True, u\<lparr>show_analog_modal := False\<rparr>)"
| "analog_key now ArrowUp u =
     Some (True, u\<lparr>analog_index := index_up kMaxAnalogIndex (analog_index u)\<rparr>)"
| "analog_key now ArrowDown u =
     Some (True, u\<lparr>analog_index := index_down kMaxAnalogIndex (analog_index u)\<rparr>)"
| "analog_key now Return u = Some (True, send_analog now u)"
| "analog_key now (Character s) u = Some (False, u)"
| "analog_key now Custom u = Some (False, u)"
| "analog_key now (Other_event n) u = Some (False, u)"

section \<open>The keys outside the dialogs\<close>

definition start_poll ::
  "int \<Rightarrow> string \<Rightarrow> string \<Rightarrow> string \<Rightarrow> scan_mask \<Rightarrow> 'w ui \<Rightarrow> 'w ui" where
  "start_poll now ts kind line classes u =
     call_master (ScanClasses classes)
       (u\<lparr>model := addLog now line ((model u)\<lparr>last_poll_type := kind, last_poll_time := ts\<rparr>)\<rparr>)"

definition select_tab :: "'w ui \<Rightarrow> 'w ui" where
  "select_tab u =
     u\<lparr>tab_index := (if show_crob_modal u then 1 else if show_analog_modal u then 2 else 0)\<rparr>"

text \<open>The switch on the first character; the first character of an empty string is the NUL.\<close>

definition main_key :: "int \<Rightarrow> string \<Rightarrow> string \<Rightarrow> 'w ui \<Rightarrow> bool \<times> 'w ui" where
  "main_key now ts s u =
     (let c = (case s of [] \<Rightarrow> CHR 0x00 | c # cs \<Rightarrow> c) in
      if c = CHR ''i'' \<or> c = CHR ''I'' then
        (True, start_poll now ts ''Integrity'' ''Sending integrity poll (all classes)...'' AllClasses u)
      else if c = CHR ''1'' then
        (True, start_poll now ts ''Class 1'' ''Sending Class 1 poll...'' CLASS_1 u)
      else if c = CHR ''2'' then
        (True, start_poll now ts ''Class 2'' ''Sending Class 2 poll...'' CLASS_2 u)
      else if c = CHR ''c'' \<or> c = CHR ''C'' then (True, u\<lparr>show_crob_modal := True, tab_index := 1\<rparr>)
      else if c = CHR ''a'' \<or> c = CHR ''A'' then (True, u\<lparr>show_analog_modal := True, tab_index := 2\<rparr>)
      else if c = CHR ''q'' \<or> c = CHR ''Q'' then (True, call_master Screen_exit u)
      else (False, u))"

definition root_key :: "int \<Rightarrow> string \<Rightarrow> 'w handler" where
  "root_key now ts e u =
     (let u1 = select_tab u in
      if show_crob_modal u1 \<or> show_analog_modal u1 then Some (False, u1)
      else (case e of Character s \<Rightarrow> Some (main_key now ts s u1) | _ \<Rightarrow> Some (False, u1)))"

section \<open>The component tree\<close>

definition content_event :: "'w handler" where
  "content_event e u = Some (False, u)"

definition radiobox_event :: "('w, 'z) widgets_scheme \<Rightarrow> 'w handler" where
  "radiobox_event w e u =
     (case radio_event w e (widget_state u) (crob_op u) of
        (used, ws, i) \<Rightarrow> Some (used, u\<lparr>widget_state := ws, crob_op := i\<rparr>))"

definition input_field_event :: "('w, 'z) widgets_scheme \<Rightarrow> 'w handler" where
  "input_field_event w e u =
     (case input_event w e (widget_state u) (analog_value_str u) of
        (used, ws, s) \<Rightarrow> Some (used, u\<lparr>widget_state := ws, analog_value_str := s\<rparr>))"

definition main_container :: "('w, 'z) widgets_scheme \<Rightarrow> int \<Rightarrow> 'w handler" where
  "main_container w now =
     tab_event w tab_index
       [content_event,
        catch_event w (crob_key now) (radiobox_event w),
        catch_event w (analog_key now) (input_field_event w)]"

definition root_event :: "('w, 'z) widgets_scheme \<Rightarrow> int \<Rightarrow> string \<Rightarrow> 'w handler" where
  "root_event w now ts = catch_event w (root_key now ts) (main_container w now)"

fun run_events :: "('w, 'z) widgets_scheme \<Rightarrow> (int \<times> string \<times> Event) list \<Rightarrow> 'w ui \<Rightarrow> 'w ui option"
  where
  "run_events w [] u = Some u"
| "run_events w ((now, ts, e) # es) u =
     (case root_event w now ts e u of None \<Rightarrow> None | Some (used, u') \<Rightarrow> run_events w es u')"

text \<open>The callback of a command: a line with the summary and the status of every point.\<close>

definition result_detail :: "u16 \<times> string \<Rightarrow> string" where
  "result_detail r = ''  idx='' @ show_nat (unat (fst r)) @ '' status='' @ snd r"

definition commandCallback ::
  "int \<Rightarrow> string \<Rightarrow> (u16 \<times> string) list \<Rightarrow> DataModel \<Rightarrow> DataModel \<times> Event list" where
  "commandCallback now summary items m =
     (addLog now (''Command result: '' @ summary @ concat (map result_detail items)) m, [Custom])"

section \<open>The documented behaviour of the widgets\<close>

text \<open>
  \<open>CatchEvent\<close> offers an event to its filter first and passes on what the filter does not consume;
  \<open>Container::Tab\<close> passes an event to the child its selector names; a radio box selects one of its
  five entries.
\<close>

definition catch_first :: "'w handler \<Rightarrow> 'w handler \<Rightarrow> 'w handler" where
  "catch_first h child e u =
     (case h e u of None \<Rightarrow> None | Some (True, u') \<Rightarrow> Some (True, u') | Some (False, u') \<Rightarrow> child e u')"

definition tab_child :: "('w ui \<Rightarrow> int) \<Rightarrow> 'w handler list \<Rightarrow> 'w handler" where
  "tab_child selected children e u =
     (case array_at children (selected u) of None \<Rightarrow> Some (False, u) | Some child \<Rightarrow> child e u)"

definition radio_ok :: "('w, 'z) widgets_scheme \<Rightarrow> bool" where
  "radio_ok w \<longleftrightarrow>
     (\<forall>e s i. 0 \<le> i \<and> i < 5 \<longrightarrow>
        0 \<le> snd (snd (radio_event w e s i)) \<and> snd (snd (radio_event w e s i)) < 5)"

definition ftxui_ok :: "('w, 'z) widgets_scheme \<Rightarrow> bool" where
  "ftxui_ok w \<longleftrightarrow> catch_event w = catch_first \<and> tab_event w = tab_child \<and> radio_ok w"

text \<open>Widgets that behave as documented: a radio box that ignores every event, a field that appends.\<close>

definition plain_widgets :: "unit widgets" where
  "plain_widgets =
     \<lparr>radio_event = (\<lambda>e w i. (False, w, i)),
      input_event = (\<lambda>e w s. case e of Character t \<Rightarrow> (True, w, s @ t) | _ \<Rightarrow> (False, w, s)),
      catch_event = catch_first, tab_event = tab_child\<rparr>"

lemma ftxui_ok_plain [simp]: "ftxui_ok plain_widgets"
  by (simp add: ftxui_ok_def radio_ok_def plain_widgets_def)

section \<open>One event, by the dialog that is open\<close>

lemma name_maxima [simp]: "kMaxCrobIndex = 19" "kMaxAnalogIndex = 4"
  by (simp_all add: kMaxCrobIndex_def kMaxAnalogIndex_def)

lemmas tree_defs =
  root_event_def main_container_def catch_first_def tab_child_def array_at_def root_key_def
  select_tab_def Let_def ftxui_ok_def

lemma relay_dialog_event:
  assumes "ftxui_ok w" and "show_crob_modal u"
  shows "root_event w now ts e u =
    catch_first (crob_key now) (radiobox_event w) e (u\<lparr>tab_index := 1\<rparr>)"
  using assms by (simp add: tree_defs)

lemma analog_dialog_event:
  assumes "ftxui_ok w" and "show_analog_modal u" and "\<not> show_crob_modal u"
  shows "root_event w now ts e u =
    catch_first (analog_key now) (input_field_event w) e (u\<lparr>tab_index := 2\<rparr>)"
  using assms by (simp add: tree_defs)

lemma main_key_unused: "main_key now ts s u = (False, u') \<Longrightarrow> u' = u"
  by (auto simp: main_key_def Let_def split: if_splits)

lemma main_screen_event:
  assumes "ftxui_ok w" and "\<not> show_analog_modal u" and "\<not> show_crob_modal u"
  shows "root_event w now ts e u =
    Some (case e of Character s \<Rightarrow> main_key now ts s (u\<lparr>tab_index := 0\<rparr>)
          | _ \<Rightarrow> (False, u\<lparr>tab_index := 0\<rparr>))"
  using assms by (cases e)
    (auto simp: tree_defs content_event_def split: bool.splits prod.splits dest!: main_key_unused)

section \<open>Every event is handled\<close>

text \<open>The states the screen is in between two events.\<close>

definition ui_ok :: "'w ui \<Rightarrow> bool" where
  "ui_ok u \<longleftrightarrow>
     0 \<le> crob_index u \<and> crob_index u < 20 \<and> 0 \<le> crob_op u \<and> crob_op u < 5 \<and>
     0 \<le> analog_index u \<and> analog_index u < 5 \<and> 0 \<le> tab_index u \<and> tab_index u < 3 \<and>
     \<not> (show_crob_modal u \<and> show_analog_modal u) \<and>
     length (event_log (model u)) \<le> kMaxLogEntries"

lemma push_log_bound: "length l \<le> kMaxLogEntries \<Longrightarrow> length (push_log e l) \<le> kMaxLogEntries"
  by (simp add: push_log_def kMaxLogEntries_def)

lemma log_call_fields [simp]:
  "show_crob_modal (log_ui now s u) = show_crob_modal u"
  "show_analog_modal (log_ui now s u) = show_analog_modal u"
  "crob_index (log_ui now s u) = crob_index u" "crob_op (log_ui now s u) = crob_op u"
  "analog_index (log_ui now s u) = analog_index u" "tab_index (log_ui now s u) = tab_index u"
  "calls (log_ui now s u) = calls u" "model (log_ui now s u) = addLog now s (model u)"
  "show_crob_modal (call_master c u) = show_crob_modal u"
  "show_analog_modal (call_master c u) = show_analog_modal u"
  "crob_index (call_master c u) = crob_index u" "crob_op (call_master c u) = crob_op u"
  "analog_index (call_master c u) = analog_index u" "tab_index (call_master c u) = tab_index u"
  "calls (call_master c u) = calls u @ [c]" "model (call_master c u) = model u"
  by (simp_all add: log_ui_def call_master_def)

lemma send_crob_total:
  assumes "ui_ok u"
  shows "send_crob now u = Some ((call_master
      (SelectAndOperate (kOpTypes ! nat (crob_op u)) (of_int (crob_index u)))
      (log_ui now (crob_message (of_int (crob_index u)) (crob_op_entries ! nat (crob_op u))) u))
    \<lparr>show_crob_modal := False\<rparr>)"
  using assms
  by (simp add: send_crob_def array_at_def ui_ok_def kOpTypes_def crob_op_entries_def Let_def)

definition handled :: "(bool \<times> 'w ui) option \<Rightarrow> bool" where
  "handled r = (case r of None \<Rightarrow> False | Some p \<Rightarrow> ui_ok (snd p))"

lemma handled_simps [simp]: "handled (Some p) = ui_ok (snd p)" "\<not> handled None"
  by (simp_all add: handled_def)

lemma radiobox_total:
  assumes "radio_ok w" and "ui_ok u"
  shows "handled (radiobox_event w e u)"
proof -
  obtain used ws i where r: "radio_event w e (widget_state u) (crob_op u) = (used, ws, i)"
    by (cases "radio_event w e (widget_state u) (crob_op u)") auto
  have "0 \<le> i \<and> i < 5"
    using assms(1) [unfolded radio_ok_def, rule_format, of "crob_op u" e "widget_state u"] assms(2)
    by (simp add: ui_ok_def r)
  then show ?thesis using assms(2) by (simp add: radiobox_event_def r ui_ok_def)
qed

lemma relay_dialog_total:
  assumes "radio_ok w" and "ui_ok u"
  shows "handled (catch_first (crob_key now) (radiobox_event w) e u)"
proof (cases e)
  case Return
  then show ?thesis using assms
    by (simp add: catch_first_def send_crob_total) (simp add: ui_ok_def push_log_bound)
qed (use assms in \<open>auto simp: catch_first_def radiobox_total ui_ok_def index_up_def index_down_def\<close>)

lemma analog_dialog_total:
  assumes "ui_ok u"
  shows "handled (catch_first (analog_key now) (input_field_event w) e u)"
  using assms by (cases e)
    (auto simp: catch_first_def input_field_event_def ui_ok_def index_up_def index_down_def
      send_analog_def Let_def push_log_bound split: prod.splits sum.splits)

lemma main_key_ok:
  "ui_ok u \<Longrightarrow> \<not> show_crob_modal u \<Longrightarrow> \<not> show_analog_modal u \<Longrightarrow> ui_ok (snd (main_key now ts s u))"
  by (auto simp: main_key_def ui_ok_def start_poll_def push_log_bound Let_def)

lemma ui_ok_tab: "ui_ok u \<Longrightarrow> 0 \<le> t \<Longrightarrow> t < 3 \<Longrightarrow> ui_ok (u\<lparr>tab_index := t\<rparr>)"
  by (simp add: ui_ok_def)

lemma root_event_total:
  assumes "ftxui_ok w" and "ui_ok u"
  shows "handled (root_event w now ts e u)"
proof -
  consider (relay) "show_crob_modal u" | (analog) "\<not> show_crob_modal u" "show_analog_modal u"
    | (main) "\<not> show_crob_modal u" "\<not> show_analog_modal u" by blast
  then show ?thesis
  proof cases
    case relay
    then show ?thesis using assms
      by (simp add: relay_dialog_event relay_dialog_total ui_ok_tab ftxui_ok_def)
  next
    case analog
    then show ?thesis using assms
      by (simp add: analog_dialog_event analog_dialog_total ui_ok_tab)
  next
    case main
    then show ?thesis using assms
      by (simp add: main_screen_event main_key_ok ui_ok_tab split: Event.split)
  qed
qed

text \<open>
  Whatever events arrive, in whatever order, no access to the arrays of operations and names
  is out of bounds and the screen stays well-formed: from the initial state every sequence of
  events is handled to the end, each index stays in the range of its array, at most one dialog is
  open, the tab is one of the three children and the log stays within its bound. Of the radio box
  it is used that it selects one of its five entries.
\<close>

theorem every_event_handled:
  assumes "ftxui_ok w"
  shows "\<exists>u. run_events w es (new_ui s) = Some u \<and> ui_ok u"
proof -
  have "\<exists>u'. run_events w es u = Some u' \<and> ui_ok u'" if "ui_ok u" for u
    using that
  proof (induction es arbitrary: u)
    case (Cons x es)
    obtain now ts e where x: "x = (now, ts, e)" by (cases x)
    have "handled (root_event w now ts e u)" by (rule root_event_total [OF assms Cons.prems])
    then show ?case using Cons.IH x by (auto simp: handled_def split: option.splits)
  qed simp
  moreover have "ui_ok (new_ui s)" by (simp add: ui_ok_def new_ui_def new_DataModel_def)
  ultimately show ?thesis by blast
qed

theorem every_event_handled_witness:
  "\<exists>u. run_events plain_widgets
     [(1, ''t'', Character ''c''), (2, ''t'', ArrowUp), (3, ''t'', Return), (4, ''t'', Character ''a''),
      (5, ''t'', Character ''7''), (6, ''t'', Return), (7, ''t'', Custom), (8, ''t'', Character ''q'')]
     (new_ui ()) = Some u \<and> ui_ok u"
  by (rule every_event_handled [OF ftxui_ok_plain])

section \<open>The dialogs as a machine\<close>

text \<open>What the operator is doing, and what an event then does: the specification of the keys.\<close>

datatype dialog = No_dialog | Relay_dialog | Analog_dialog

definition dialog_of :: "'w ui \<Rightarrow> dialog" where
  "dialog_of u =
     (if show_crob_modal u then Relay_dialog
      else if show_analog_modal u then Analog_dialog else No_dialog)"

definition poll_requests :: "char \<Rightarrow> master_call list" where
  "poll_requests c =
     (if c \<in> {CHR ''i'', CHR ''I''} then [ScanClasses AllClasses]
      else if c = CHR ''1'' then [ScanClasses CLASS_1]
      else if c = CHR ''2'' then [ScanClasses CLASS_2]
      else if c \<in> {CHR ''q'', CHR ''Q''} then [Screen_exit] else [])"

definition dialog_opened :: "char \<Rightarrow> dialog" where
  "dialog_opened c =
     (if c \<in> {CHR ''c'', CHR ''C''} then Relay_dialog
      else if c \<in> {CHR ''a'', CHR ''A''} then Analog_dialog else No_dialog)"

definition dialog_step :: "Event \<Rightarrow> 'w ui \<Rightarrow> dialog \<times> master_call list" where
  "dialog_step e u =
     (case dialog_of u of
        No_dialog \<Rightarrow>
          (case e of Character (c # cs) \<Rightarrow> (dialog_opened c, poll_requests c) | _ \<Rightarrow> (No_dialog, []))
      | Relay_dialog \<Rightarrow>
          (if e = Return then
             (No_dialog, [SelectAndOperate (kOpTypes ! nat (crob_op u)) (of_int (crob_index u))])
           else (if e = Escape then No_dialog else Relay_dialog, []))
      | Analog_dialog \<Rightarrow>
          (if e = Return then
             (No_dialog,
              (case stoi (analog_value_str u) of
                 Inl err \<Rightarrow> [] | Inr i \<Rightarrow> [DirectOperate (of_int i) (of_int (analog_index u))]))
           else (if e = Escape then No_dialog else Analog_dialog, [])))"

definition result_state :: "(bool \<times> 'w ui) option \<Rightarrow> 'w ui" where
  "result_state r = snd (the r)"

lemma result_state_Some [simp]: "result_state (Some p) = snd p"
  by (simp add: result_state_def)

lemma relay_dialog_step:
  assumes "ui_ok u" and "show_crob_modal u"
  shows "let u' = result_state (catch_first (crob_key now) (radiobox_event w) e u)
     in (dialog_of u', calls u') = map_prod id ((@) (calls u)) (dialog_step e u)"
proof (cases e)
  case Return
  then show ?thesis using assms
    by (simp add: catch_first_def send_crob_total dialog_of_def dialog_step_def)
      (simp add: ui_ok_def)
qed (use assms in \<open>simp_all add: catch_first_def radiobox_event_def dialog_of_def dialog_step_def
      ui_ok_def split: prod.split\<close>)

lemma analog_dialog_step:
  assumes "\<not> show_crob_modal u" and "show_analog_modal u"
  shows "let u' = result_state (catch_first (analog_key now) (input_field_event w) e u)
     in (dialog_of u', calls u') = map_prod id ((@) (calls u)) (dialog_step e u)"
  using assms
  by (cases e) (simp_all add: catch_first_def input_field_event_def dialog_of_def dialog_step_def
      send_analog_def Let_def split: prod.split sum.split)

lemma main_key_step:
  assumes "\<not> show_crob_modal u" and "\<not> show_analog_modal u"
  shows "let u' = snd (main_key now ts s u)
     in (dialog_of u', calls u') = map_prod id ((@) (calls u)) (dialog_step (Character s) u)"
  using assms by (cases s)
    (auto simp: main_key_def start_poll_def dialog_of_def dialog_step_def poll_requests_def
      dialog_opened_def Let_def)

lemma dialog_step_tab [simp]: "dialog_step e (u\<lparr>tab_index := t\<rparr>) = dialog_step e u"
  by (simp add: dialog_step_def dialog_of_def split: dialog.split sum.split)

lemma dialog_of_tab [simp]: "dialog_of (u\<lparr>tab_index := t\<rparr>) = dialog_of u"
  by (simp add: dialog_of_def)

text \<open>
  C20: The event handling implements the machine of the dialogs, whatever tab was left selected:
  with a well-formed screen every event leads to the dialog, and makes exactly the requests, that
  \<open>dialog_step\<close> names. So a command leaves only by Return in its own dialog, at most one at a
  time, for the point and the operation selected, and closes the dialog; a text that is no integer
  sends nothing; polls and quitting happen only with no dialog open.
\<close>

theorem dialogs_and_requests:
  assumes "ftxui_ok w" and "ui_ok u"
  shows "\<exists>used u'. root_event w now ts e u = Some (used, u') \<and>
    dialog_of u' = fst (dialog_step e u) \<and> calls u' = calls u @ snd (dialog_step e u)"
proof -
  let ?r = "root_event w now ts e u"
  have "handled ?r" by (rule root_event_total [OF assms])
  then obtain used u' where r: "?r = Some (used, u')"
    by (auto simp: handled_def split: option.splits)
  consider (relay) "show_crob_modal u" | (analog) "\<not> show_crob_modal u" "show_analog_modal u"
    | (main) "\<not> show_crob_modal u" "\<not> show_analog_modal u" by blast
  then have "(dialog_of (result_state ?r), calls (result_state ?r)) =
      map_prod id ((@) (calls u)) (dialog_step e u)"
  proof cases
    case relay
    then show ?thesis
      using assms relay_dialog_step [of "u\<lparr>tab_index := 1\<rparr>" now w e]
      by (simp add: relay_dialog_event ui_ok_tab Let_def)
  next
    case analog
    then show ?thesis
      using assms analog_dialog_step [of "u\<lparr>tab_index := 2\<rparr>" now w e]
      by (simp add: analog_dialog_event Let_def)
  next
    case main
    show ?thesis
    proof (cases e)
      case (Character s)
      with main show ?thesis
        using assms main_key_step [of "u\<lparr>tab_index := 0\<rparr>" now ts s]
        by (simp add: main_screen_event Let_def)
    qed (use main assms in \<open>simp_all add: main_screen_event dialog_step_def dialog_of_def\<close>)
  qed
  then show ?thesis using r by (cases "dialog_step e u") simp
qed

text \<open>The relay dialog on point 2 with the operation LATCH_ON, and a text field with 40000.\<close>

definition relay_open :: "unit ui" where
  "relay_open = (new_ui ())\<lparr>show_crob_modal := True, tab_index := 1, crob_index := 2, crob_op := 3\<rparr>"

definition analog_open :: "string \<Rightarrow> unit ui" where
  "analog_open s =
     (new_ui ())\<lparr>show_analog_modal := True, tab_index := 2, analog_value_str := s, analog_index := 4\<rparr>"

lemma ui_ok_examples [simp]: "ui_ok relay_open" "ui_ok (analog_open s)"
  by (simp_all add: ui_ok_def relay_open_def analog_open_def new_ui_def new_DataModel_def)

theorem dialogs_and_requests_witness:
  "\<exists>used u'. root_event plain_widgets 7 ''t'' Return relay_open = Some (used, u') \<and>
     dialog_of u' = No_dialog \<and> calls u' = [SelectAndOperate LATCH_ON 2]"
proof -
  have "dialog_step Return relay_open = (No_dialog, [SelectAndOperate LATCH_ON 2])" "calls relay_open = []"
    by code_simp+
  then show ?thesis
    using dialogs_and_requests [OF ftxui_ok_plain ui_ok_examples(1), of 7 "''t''" Return] by simp
qed

section \<open>The value typed and the value sent\<close>

lemma sint_of_int_16: "sint (of_int i :: 16 word) = i \<longleftrightarrow> - (2 ^ 15) \<le> i \<and> i < 2 ^ 15"
proof
  assume "sint (of_int i :: 16 word) = i"
  then show "- (2 ^ 15) \<le> i \<and> i < 2 ^ 15"
    using sint_ge [of "of_int i :: 16 word"] sint_lt [of "of_int i :: 16 word"] by simp
next
  assume "- (2 ^ 15) \<le> i \<and> i < 2 ^ 15"
  then show "sint (of_int i :: 16 word) = i" by (simp only: int_word_sint) simp
qed

lemma push_log_last: "push_log e l \<noteq> [] \<and> List.last (push_log e l) = e"
  by (simp add: push_log_def)

text \<open>
  In the analog dialog the decimal text of an integer of 32 bits is sent, on Return, as that
  integer reduced to 16 bits, to the selected point, and the log line shows the reduced value: the
  value typed is the value sent exactly when it fits 16 bits. A larger value is not refused.
\<close>

lemma analog_value_sent:
  assumes "ftxui_ok w" and "ui_ok u" and "show_analog_modal u"
    and "analog_value_str u = show_int i" and "- (2 ^ 31) \<le> i" and "i < 2 ^ 31"
  shows "\<exists>u'. root_event w now ts Return u = Some (True, u') \<and>
    calls u' = calls u @ [DirectOperate (of_int i) (of_int (analog_index u))] \<and>
    List.last (event_log (model u')) =
      \<lparr>log_text = analog_message (of_int (analog_index u)) (of_int i), timestamp = now\<rparr> \<and>
    (sint (of_int i :: 16 word) = i \<longleftrightarrow> - (2 ^ 15) \<le> i \<and> i < 2 ^ 15)"
proof -
  have "\<not> show_crob_modal u" using assms(2,3) by (simp add: ui_ok_def)
  then show ?thesis
    using assms(1,3,4) stoi_show_int [OF assms(5,6)]
    by (simp add: analog_dialog_event catch_first_def send_analog_def push_log_last Let_def
        sint_of_int_16)
qed

lemma int_bounds_40000: "- (2 ^ 31) \<le> (40000 :: int)" "(40000 :: int) < 2 ^ 31"
  by simp_all

lemma show_40000: "show_int 40000 = ''40000''"
  by (simp add: show_int_def show_nat.simps) code_simp

section \<open>Moving through the points\<close>

lemma index_circle:
  assumes "0 \<le> i" and "i < 20"
  shows "index_down 19 i = (i + 1) mod 20" and "index_up 19 i = (i - 1) mod 20"
proof -
  show "index_down 19 i = (i + 1) mod 20"
    using assms by (cases "i = 19") (simp_all add: index_down_def)
  show "index_up 19 i = (i - 1) mod 20"
    using assms by (cases "i = 0") (simp_all add: index_up_def)
qed

lemma relay_arrow:
  assumes "ftxui_ok w" and "ui_ok u" and "show_crob_modal u"
  shows "\<exists>u'. root_event w now ts ArrowDown u = Some (True, u') \<and> ui_ok u' \<and> show_crob_modal u' \<and>
      crob_index u' = (crob_index u + 1) mod 20 \<and> calls u' = calls u"
    and "\<exists>u'. root_event w now ts ArrowUp u = Some (True, u') \<and> ui_ok u' \<and> show_crob_modal u' \<and>
      crob_index u' = (crob_index u - 1) mod 20 \<and> calls u' = calls u"
proof -
  have "0 \<le> crob_index u" "crob_index u < 20" using assms(2) by (simp_all add: ui_ok_def)
  note c = index_circle [OF this]
  show "\<exists>u'. root_event w now ts ArrowDown u = Some (True, u') \<and> ui_ok u' \<and>
      show_crob_modal u' \<and> crob_index u' = (crob_index u + 1) mod 20 \<and> calls u' = calls u"
    using assms by (simp add: relay_dialog_event catch_first_def c ui_ok_def)
  show "\<exists>u'. root_event w now ts ArrowUp u = Some (True, u') \<and> ui_ok u' \<and>
      show_crob_modal u' \<and> crob_index u' = (crob_index u - 1) mod 20 \<and> calls u' = calls u"
    using assms by (simp add: relay_dialog_event catch_first_def c ui_ok_def)
qed

lemma arrows_up:
  assumes w: "ftxui_ok w" and "ui_ok u" and "show_crob_modal u"
  shows "\<exists>u'. run_events w (replicate m (now, ts, ArrowUp)) u = Some u' \<and>
      crob_index u' = (crob_index u - int m) mod 20 \<and> show_crob_modal u' \<and> calls u' = calls u"
  using assms(2,3)
proof (induction m arbitrary: u)
  case 0
  then show ?case by (simp add: ui_ok_def)
next
  case (Suc m)
  from relay_arrow(2) [OF w Suc.prems] obtain v where
    "root_event w now ts ArrowUp u = Some (True, v)" "ui_ok v" "show_crob_modal v"
    "crob_index v = (crob_index u - 1) mod 20" "calls v = calls u" by blast
  moreover have "((crob_index u - 1) mod 20 - int m) mod 20 = (crob_index u - int (Suc m)) mod 20"
    by (simp add: mod_simps algebra_simps)
  moreover have "run_events w (replicate (Suc m) (now, ts, ArrowUp)) u =
      run_events w (replicate m (now, ts, ArrowUp)) v"
    using \<open>root_event w now ts ArrowUp u = Some (True, v)\<close> by simp
  ultimately show ?case using Suc.IH [of v] by (simp only:)
qed

text \<open>
  In the relay dialog the arrow keys walk the 20 points in a circle and do nothing else: from
  point \<open>k\<close>, \<open>n\<close> times Down and \<open>m\<close> times Up lead to point \<open>(k + n - m) mod 20\<close> with the dialog
  still open and no request made, so as many Ups as Downs lead back.
\<close>

theorem arrows_walk_in_circle:
  assumes w: "ftxui_ok w" and "ui_ok u" and "show_crob_modal u"
  shows "\<exists>u'. run_events w (replicate n (now, ts, ArrowDown) @ replicate m (now, ts, ArrowUp)) u =
      Some u' \<and> crob_index u' = (crob_index u + int n - int m) mod 20 \<and>
      show_crob_modal u' \<and> calls u' = calls u"
  using assms(2,3)
proof (induction n arbitrary: u)
  case 0
  from arrows_up [OF w this] show ?case by simp
next
  case (Suc n)
  from relay_arrow(1) [OF w Suc.prems] obtain v where
    "root_event w now ts ArrowDown u = Some (True, v)" "ui_ok v" "show_crob_modal v"
    "crob_index v = (crob_index u + 1) mod 20" "calls v = calls u" by blast
  moreover have "((crob_index u + 1) mod 20 + int n - int m) mod 20 =
      (crob_index u + int (Suc n) - int m) mod 20"
    using mod_add_left_eq [of "crob_index u + 1" 20 "int n - int m"] by (simp add: algebra_simps)
  moreover have "run_events w (replicate (Suc n) (now, ts, ArrowDown) @ es) u =
      run_events w (replicate n (now, ts, ArrowDown) @ es) v" for es
    using \<open>root_event w now ts ArrowDown u = Some (True, v)\<close> by simp
  ultimately show ?case using Suc.IH [of v] by (simp only:)
qed

theorem arrows_walk_in_circle_witness:
  "\<exists>u'. run_events plain_widgets
       (replicate 19 (1, ''t'', ArrowDown) @ replicate 2 (1, ''t'', ArrowUp)) relay_open = Some u' \<and>
     crob_index u' = 19 \<and> show_crob_modal u' \<and> calls u' = []"
proof -
  have e: "calls relay_open = []" "crob_index relay_open = 2" "show_crob_modal relay_open"
    by code_simp+
  show ?thesis
    using arrows_walk_in_circle [OF ftxui_ok_plain ui_ok_examples(1) e(3), of 19 1 "''t''" 2] e by simp
qed

section \<open>A closed dialog stays on the screen\<close>

text \<open>
  The tab is updated only when an event arrives and before it is handled. So Escape closes the
  dialog and leaves its tab selected: the screen still draws the dialog until the next event, and
  that event is already handled as one of the main screen: the key that polls, or quits, is obeyed
  under the picture of the dialog.
\<close>

theorem closed_dialog_still_drawn:
  assumes "ftxui_ok w" and "ui_ok u" and "dialog_of u \<noteq> No_dialog"
  shows "\<exists>u'. root_event w now ts Escape u = Some (True, u') \<and> dialog_of u' = No_dialog \<and>
    tab_index u' = (if dialog_of u = Relay_dialog then 1 else 2) \<and> calls u' = calls u \<and>
    (\<exists>u''. root_event w now' ts' (Character ''q'') u' = Some (True, u'') \<and>
       calls u'' = calls u @ [Screen_exit])"
  using assms
  by (auto simp: relay_dialog_event analog_dialog_event main_screen_event catch_first_def dialog_of_def
      main_key_def ui_ok_def split: if_splits)

theorem closed_dialog_still_drawn_witness:
  "\<exists>u'. root_event plain_widgets 7 ''t'' Escape relay_open = Some (True, u') \<and>
    dialog_of u' = No_dialog \<and> tab_index u' = 1 \<and> calls u' = [] \<and>
    (\<exists>u''. root_event plain_widgets 8 ''t'' (Character ''q'') u' = Some (True, u'') \<and>
       calls u'' = [Screen_exit])"
proof -
  have d: "dialog_of relay_open = Relay_dialog" "calls relay_open = []" by code_simp+
  then have "dialog_of relay_open \<noteq> No_dialog" by simp
  from closed_dialog_still_drawn [OF ftxui_ok_plain ui_ok_examples(1) this, of 7 "''t''" 8 "''t''"]
  show ?thesis using d by simp
qed

end
