(* ===== verification/MasterScreen.thy ===== *)
theory MasterScreen
  imports MasterUi "HOL-Library.Sublist"
begin

text \<open>
  What the test master draws: the helpers of \<open>src/tools/dnp3-master-sim/Ui.cpp\<close> that turn the
  data model into the cells of the four tables, the header, the log box and the texts of the two
  dialogs. A cell is a text with its decorators; borders, separators and sizes are left to ftxui.
\<close>

section \<open>Cells\<close>

datatype Color = Green | Red | Cyan | Yellow | GrayDark

datatype Decorator = dim | bold | center | color Color

record cell =
  cell_text :: string
  decorators :: "Decorator list"

definition cell_of :: "string \<Rightarrow> Decorator list \<Rightarrow> cell" where
  "cell_of s ds = \<lparr>cell_text = s, decorators = ds\<rparr>"

definition pad_left :: "nat \<Rightarrow> string \<Rightarrow> string" where
  "pad_left width s = replicate (width - length s) CHR 0x20 @ s"

section \<open>Formatting\<close>

definition hex_digit :: "nat \<Rightarrow> char" where
  "hex_digit d = (if d < 10 then char_of (48 + d) else char_of (55 + d))"

definition formatFlags :: "u8 \<Rightarrow> string" where
  "formatFlags flags = [hex_digit (unat flags div 16), hex_digit (unat flags mod 16)]"

definition flagColor :: "u8 \<Rightarrow> Color" where
  "flagColor flags = (if 4 \<le> flags then Red else if flags = 2 then Yellow else GrayDark)"

text \<open>
  \<open>std::format\<close> with \<open>.0f\<close>: the nearest integer, ties to even, with the sign of the value. The
  sign of a NaN is not kept in the model.
\<close>

definition nearest_integer :: "nat \<Rightarrow> nat" where
  "nearest_integer m =
     (let q = m div one_units; r = m mod one_units
      in if one_units < 2 * r \<or> (2 * r = one_units \<and> odd q) then q + 1 else q)"

definition sign_text :: "bool \<Rightarrow> string" where
  "sign_text neg = (if neg then ''-'' else [])"

fun format_0f :: "double \<Rightarrow> string" where
  "format_0f (Fin neg m) = sign_text neg @ show_nat (nearest_integer m)"
| "format_0f (Inf neg) = sign_text neg @ ''inf''"
| "format_0f NaN = ''nan''"

text \<open>\<open>duration_cast\<close> from nanoseconds to milliseconds cuts towards zero.\<close>

definition milliseconds :: "int \<Rightarrow> int" where
  "milliseconds ns = (if 0 \<le> ns then ns div 1000000 else - ((- ns) div 1000000))"

section \<open>The tables\<close>

record table_view =
  title :: cell
  table_rows :: "cell list list"

definition header_row :: "string \<Rightarrow> cell list" where
  "header_row value_name =
     [cell_of ''#'' [bold], cell_of ''Name'' [bold], cell_of value_name [bold], cell_of ''Flg'' [bold]]"

definition bold_if_recent :: "int \<Rightarrow> PointValue \<Rightarrow> Decorator list" where
  "bold_if_recent now p = (if milliseconds (now - last_update p) < 1000 then [bold] else [])"

definition half_double :: double where
  "half_double = Fin False (one_units div 2)"

definition point_row :: "string list \<Rightarrow> u16 \<Rightarrow> cell \<Rightarrow> cell \<Rightarrow> cell list" where
  "point_row names i value_cell flag_cell =
     [cell_of (pad_left 2 (show_nat (unat i))) [], cell_of (pointName names i) [],
      value_cell, flag_cell]"

definition missing_row :: "string list \<Rightarrow> u16 \<Rightarrow> cell list" where
  "missing_row names i = point_row names i (cell_of ''---'' [dim]) (cell_of ''--'' [dim])"

definition flag_cell :: "PointValue \<Rightarrow> cell" where
  "flag_cell p = cell_of (formatFlags (pv_flags p)) [color (flagColor (pv_flags p))]"

definition binary_row :: "string list \<Rightarrow> (u16 \<rightharpoonup> PointValue) \<Rightarrow> int \<Rightarrow> u16 \<Rightarrow> cell list" where
  "binary_row names points now i =
     (case points i of
        None \<Rightarrow> missing_row names i
      | Some p \<Rightarrow>
          if received p then
            let on = half_double < pv_value p
            in point_row names i
                 (cell_of (if on then '' 1 '' else '' 0 '')
                    ((if on then color Green else dim) # bold_if_recent now p))
                 (flag_cell p)
          else missing_row names i)"

definition analog_row :: "string list \<Rightarrow> (u16 \<rightharpoonup> PointValue) \<Rightarrow> int \<Rightarrow> u16 \<Rightarrow> cell list" where
  "analog_row names points now i =
     (case points i of
        None \<Rightarrow> missing_row names i
      | Some p \<Rightarrow>
          if received p then
            point_row names i
              (cell_of (pad_left 10 (format_0f (pv_value p))) (color Cyan # bold_if_recent now p))
              (flag_cell p)
          else missing_row names i)"

text \<open>The loop counts in 16 bits up to the size of the array, cut to 16 bits.\<close>

definition row_indexes :: "string list \<Rightarrow> u16 list" where
  "row_indexes names = map of_nat [0..<unat (of_nat (length names) :: u16)]"

definition buildBinaryTable ::
  "string \<Rightarrow> string list \<Rightarrow> (u16 \<rightharpoonup> PointValue) \<Rightarrow> int \<Rightarrow> table_view" where
  "buildBinaryTable heading names points now =
     \<lparr>title = cell_of heading [bold, center],
      table_rows = header_row ''Val'' # map (binary_row names points now) (row_indexes names)\<rparr>"

definition buildAnalogTable ::
  "string \<Rightarrow> string list \<Rightarrow> (u16 \<rightharpoonup> PointValue) \<Rightarrow> int \<Rightarrow> table_view" where
  "buildAnalogTable heading names points now =
     \<lparr>title = cell_of heading [bold, center],
      table_rows = header_row ''Value'' # map (analog_row names points now) (row_indexes names)\<rparr>"

section \<open>The main screen\<close>

fun contains :: "string \<Rightarrow> string \<Rightarrow> bool" where
  "contains pat [] = (pat = [])"
| "contains pat (c # cs) = (take (length pat) (c # cs) = pat \<or> contains pat cs)"

definition log_decorator :: "string \<Rightarrow> Decorator" where
  "log_decorator s =
     (if contains ''SUCCESS'' s \<or> contains ''Received'' s then color Green
      else if contains ''TIMEOUT'' s \<or> contains ''error'' s \<or> contains ''FAIL'' s then color Red
      else dim)"

definition log_line :: "LogEntry \<Rightarrow> cell" where
  "log_line e = cell_of (log_text e) [log_decorator (log_text e)]"

definition log_lines :: "LogEntry list \<Rightarrow> cell list" where
  "log_lines log =
     (let first_shown = (if 8 < length log then length log - 8 else 0);
          ls = map log_line (drop first_shown log)
      in if ls = [] then [cell_of '' (no events)'' [dim]] else ls)"

definition conn_text :: "DataModel \<Rightarrow> cell" where
  "conn_text m =
     (if sim_connected m then cell_of '' CONNECTED '' [color Green, bold]
      else cell_of '' DISCONNECTED '' [color Red, bold])"

definition poll_info :: "DataModel \<Rightarrow> cell" where
  "poll_info m =
     (if last_poll_type m = [] then cell_of [] [dim]
      else cell_of ('' Last: '' @ last_poll_type m @ '' at '' @ last_poll_time m @ '' '') [dim])"

definition header_line :: "DataModel \<Rightarrow> cell list" where
  "header_line m = [cell_of '' DNP3 Master Simulator '' [bold], conn_text m, poll_info m]"

definition actions :: "cell list" where
  "actions =
     [cell_of '' [I]'' [bold], cell_of '' Integrity  '' [], cell_of ''[1]'' [bold],
      cell_of '' Cl.1  '' [], cell_of ''[2]'' [bold], cell_of '' Cl.2  '' [],
      cell_of ''[C]'' [bold], cell_of '' CROB  '' [], cell_of ''[A]'' [bold],
      cell_of '' Analog  '' [], cell_of ''[Q]'' [bold], cell_of '' Quit'' []]"

record screen_view =
  header_box :: "cell list"
  bi_table :: table_view
  bo_table :: table_view
  ai_table :: table_view
  ao_table :: table_view
  log_box :: "cell list"
  action_bar :: "cell list"

definition main_content :: "int \<Rightarrow> DataModel \<Rightarrow> screen_view" where
  "main_content now m =
     \<lparr>header_box = header_line m,
      bi_table = buildBinaryTable ''Binary Inputs'' kBinaryInputNames (binary_inputs m) now,
      bo_table = buildBinaryTable ''Binary Output Status'' kBinaryOutputNames (binary_outputs m) now,
      ai_table = buildAnalogTable ''Analog Inputs'' kAnalogInputNames (analog_inputs m) now,
      ao_table = buildAnalogTable ''Analog Output Status'' kAnalogOutputNames (analog_outputs m) now,
      log_box = log_lines (event_log m),
      action_bar = actions\<rparr>"

section \<open>The dialogs\<close>

text \<open>The texts of a dialog, without the widget inside it.\<close>

definition dialog_texts :: "string \<Rightarrow> string list \<Rightarrow> int \<Rightarrow> string \<Rightarrow> cell list" where
  "dialog_texts heading names index_shown label =
     [cell_of heading [bold, center], cell_of '' Point: '' [],
      cell_of (show_int index_shown @ '' - '' @ pointName names (of_int index_shown)) [bold],
      cell_of '' (Up/Down to change point)'' [dim], cell_of label [],
      cell_of '' Enter'' [bold], cell_of ''=Send  '' [], cell_of ''Esc'' [bold], cell_of ''=Cancel'' []]"

definition crob_modal_texts :: "'w ui \<Rightarrow> cell list" where
  "crob_modal_texts u =
     dialog_texts '' Send CROB Command '' kBinaryOutputNames (crob_index u) '' Operation:''"

definition analog_modal_texts :: "'w ui \<Rightarrow> cell list" where
  "analog_modal_texts u =
     dialog_texts '' Send Analog Output '' kAnalogOutputNames (analog_index u) '' Value: ''"

text \<open>
  What a component draws. Of the widgets inside a dialog the picture holds what they are given: the
  entries and the selected one of the radio box, the content and the placeholder of the input field.
\<close>

datatype picture =
  Main_picture screen_view
| Relay_picture "cell list" "string list" int
| Analog_picture "cell list" string string
| Empty_picture

definition crob_modal_renderer :: "'w ui \<Rightarrow> picture" where
  "crob_modal_renderer u = Relay_picture (crob_modal_texts u) crob_op_entries (crob_op u)"

definition analog_modal_renderer :: "'w ui \<Rightarrow> picture" where
  "analog_modal_renderer u = Analog_picture (analog_modal_texts u) (analog_value_str u) ''0''"

text \<open>\<open>CatchEvent\<close> draws its child, \<open>Container::Tab\<close> the child that its selector names, and no other.\<close>

definition root_picture :: "int \<Rightarrow> 'w ui \<Rightarrow> picture" where
  "root_picture now u =
     (case array_at [Main_picture (main_content now (model u)), crob_modal_renderer u,
         analog_modal_renderer u] (tab_index u) of
        None \<Rightarrow> Empty_picture
      | Some p \<Rightarrow> p)"

lemma root_picture_tabs:
  "tab_index u = 0 \<Longrightarrow> root_picture now u = Main_picture (main_content now (model u))"
  "tab_index u = 1 \<Longrightarrow> root_picture now u = crob_modal_renderer u"
  "tab_index u = 2 \<Longrightarrow> root_picture now u = analog_modal_renderer u"
  by (simp_all add: root_picture_def array_at_def)

section \<open>Flags\<close>

lemma below_four_iff_bits: "\<not> (4 :: u8) \<le> f \<longleftrightarrow> (\<forall>n. 2 \<le> n \<longrightarrow> \<not> bit f n)"
proof -
  have "\<not> (4 :: u8) \<le> f \<longleftrightarrow> unat (drop_bit 2 f) = 0"
    by (simp only: word_le_nat_alt unat_drop_bit_eq) (auto simp: drop_bit_eq_div)
  also have "\<dots> \<longleftrightarrow> drop_bit 2 f = 0" by (metis unat_0 word_unat_eq_iff)
  also have "\<dots> \<longleftrightarrow> (\<forall>n. \<not> bit (drop_bit 2 f) n)" by (auto intro: bit_eqI)
  also have "\<dots> \<longleftrightarrow> (\<forall>n. \<not> bit f (2 + n))" by (simp only: bit_drop_bit_eq o_def)
  also have "\<dots> \<longleftrightarrow> (\<forall>n. 2 \<le> n \<longrightarrow> \<not> bit f n)"
    by (metis le_iff_add)
  finally show ?thesis .
qed

text \<open>
  The colour of a flag octet, which the code takes from comparisons with numbers, in terms of
  the bits of the DNP3 flags: red exactly when a bit above RESTART is set, yellow exactly for
  RESTART alone, grey for ONLINE, ONLINE with RESTART and nothing. So the STATE bit (bit 7) that a
  binary point with value true carries makes its flags red, whatever its quality.
\<close>

theorem flag_colours:
  "flagColor f = (if \<exists>n. bit f n \<and> 2 \<le> n then Red
     else if bit f 1 \<and> \<not> bit f 0 then Yellow else GrayDark)"
proof (cases "\<exists>n. bit f n \<and> 2 \<le> n")
  case True
  then show ?thesis using below_four_iff_bits [of f] by (auto simp: flagColor_def)
next
  case False
  then have lt: "\<not> (4 :: u8) \<le> f" using below_four_iff_bits [of f] by blast
  then have "unat f < 4" by (simp add: word_le_nat_alt not_le)
  then have "unat f \<in> {0, 1, 2, 3}" by auto
  then have "f \<in> {0, 1, 2, 3}" by (auto simp: word_unat_eq_iff)
  then show ?thesis using False lt by (auto simp: flagColor_def)
qed

section \<open>What was received is what is shown\<close>

lemma row_of_index:
  assumes "k < length names" and "length names < 65536"
  shows "map f (row_indexes names) ! k = f (of_nat k)"
    and "point_row names (of_nat k) a b =
      [cell_of (pad_left 2 (show_nat k)) [], cell_of (names ! k) [], a, b]"
  using assms by (simp_all add: row_indexes_def point_row_def pointName_def unat_of_nat_u16)

lemma latest_at:
  assumes "ix_index p = i" and "i \<notin> ix_index ` set zs"
  shows "latest now conv (xs @ p # zs) old i = Some (point_of now (conv (ix_value p)) (ix_flags p))"
proof -
  have "map_of (rev (map (\<lambda>p. (ix_index p, point_of now (conv (ix_value p)) (ix_flags p))) zs)) i = None"
    using assms(2) by (auto simp: map_of_eq_None_iff)
  then show ?thesis
    using assms(1) by (simp add: latest_def map_add_def)
qed

lemma milliseconds_recent: "milliseconds ns < 1000 \<longleftrightarrow> ns < 1000000000"
  by (auto simp: milliseconds_def)

lemma half_less_of_bool [simp]: "half_double < of_bool_value b \<longleftrightarrow> b"
proof -
  have "one_units div 2 < one_units" by simp
  then show ?thesis by (simp add: half_double_def of_bool_value_def one_double_def)
qed

lemma nearest_integer_exact [simp]: "nearest_integer (q * one_units) = q"
  by (simp add: nearest_integer_def)

lemma format_0f_int: "\<bar>k\<bar> \<le> 2 ^ 53 \<Longrightarrow> format_0f (double_of_int k) = show_int k"
  by (auto simp: double_of_int_Fin sign_text_def show_int_def)

text \<open>The cells of a point with a measurement.\<close>

lemma binary_row_received:
  assumes "points i = Some (point_of now (of_bool_value b) flags)"
  shows "binary_row names points t i =
    point_row names i
      (cell_of (if b then '' 1 '' else '' 0 '')
         ((if b then color Green else dim) # (if t - now < 1000000000 then [bold] else [])))
      (cell_of (formatFlags flags) [color (flagColor flags)])"
  using assms
  by (simp add: binary_row_def point_of_def flag_cell_def bold_if_recent_def milliseconds_recent)

lemma analog_row_received:
  assumes "points i = Some (point_of now v flags)"
  shows "analog_row names points t i =
    point_row names i
      (cell_of (pad_left 10 (format_0f v))
         (color Cyan # (if t - now < 1000000000 then [bold] else [])))
      (cell_of (formatFlags flags) [color (flagColor flags)])"
  using assms
  by (simp add: analog_row_def point_of_def flag_cell_def bold_if_recent_def milliseconds_recent)

text \<open>
  A binary measurement reaches its line of the screen: after the callback, the line of point
  \<open>k\<close> among the 11 binary inputs shows its name, the value of the last measurement for \<open>k\<close> in the
  collection and its flags in hexadecimal with their colour; the value is bold for exactly one
  second of the steady clock.
\<close>

theorem binary_measurement_shown:
  assumes "k < 11" and "ix_index p = of_nat k" and "of_nat k \<notin> ix_index ` set zs"
  shows "table_rows (bi_table (main_content t (fst (Process_Binary now later (xs @ p # zs) m)))) ! Suc k =
    [cell_of (pad_left 2 (show_nat k)) [], cell_of (kBinaryInputNames ! k) [],
     cell_of (if ix_value p then '' 1 '' else '' 0 '')
       ((if ix_value p then color Green else dim) # (if t - now < 1000000000 then [bold] else [])),
     cell_of (formatFlags (ix_flags p)) [color (flagColor (ix_flags p))]]"
proof -
  let ?m = "fst (Process_Binary now later (xs @ p # zs) m)"
  have "binary_inputs ?m (of_nat k) =
      Some (point_of now (of_bool_value (ix_value p)) (ix_flags p))"
    by (simp only: Process_tables latest_at [OF assms(2,3)])
  from binary_row_received [of "binary_inputs ?m" "of_nat k", OF this] show ?thesis
    using assms(1)
    by (simp add: main_content_def buildBinaryTable_def row_of_index)
qed

theorem binary_measurement_shown_witness:
  "table_rows (bi_table (main_content 500000000 (fst (Process_Binary 3 4
     ([\<lparr>ix_index = 2, ix_value = False, ix_flags = 1\<rparr>] @
      \<lparr>ix_index = 2, ix_value = True, ix_flags = 129\<rparr> # []) new_DataModel)))) ! 3 =
   [cell_of '' 2'' [], cell_of ''Alarme'' [], cell_of '' 1 '' [color Green, bold],
    cell_of ''81'' [color Red]]"
proof -
  have p: "ix_index \<lparr>ix_index = 2, ix_value = True, ix_flags = 129\<rparr> = (of_nat 2 :: u16)"
    "of_nat 2 \<notin> ix_index ` set ([] :: bool Indexed list)" "(2 :: nat) < 11" by simp_all
  have "pad_left 2 (show_nat 2) = '' 2''" "kBinaryInputNames ! 2 = ''Alarme''"
    "formatFlags 129 = ''81''" "flagColor 129 = Red" by code_simp+
  then show ?thesis
    using binary_measurement_shown [OF p(3,1,2), of 500000000 3 4
        "[\<lparr>ix_index = 2, ix_value = False, ix_flags = 1\<rparr>]" new_DataModel] by simp
qed

text \<open>
  An analog measurement reaches its line of the screen: after the callback, the line of point
  \<open>k\<close> among the 21 analog inputs shows its name, the last value of the collection for \<open>k\<close> and its
  flags. An integer up to \<open>2 ^ 53\<close> in magnitude is shown in full, right-aligned in 10 columns.
\<close>

theorem analog_measurement_shown:
  assumes "k < 21" and "ix_index p = of_nat k" and "of_nat k \<notin> ix_index ` set zs"
    and "ix_value p = double_of_int v" and "\<bar>v\<bar> \<le> 2 ^ 53"
  shows "table_rows (ai_table (main_content t (fst (Process_Analog now later (xs @ p # zs) m)))) ! Suc k =
    [cell_of (pad_left 2 (show_nat k)) [], cell_of (kAnalogInputNames ! k) [],
     cell_of (pad_left 10 (show_int v)) (color Cyan # (if t - now < 1000000000 then [bold] else [])),
     cell_of (formatFlags (ix_flags p)) [color (flagColor (ix_flags p))]]"
proof -
  let ?m = "fst (Process_Analog now later (xs @ p # zs) m)"
  have "analog_inputs ?m (of_nat k) = Some (point_of now (ix_value p) (ix_flags p))"
    by (simp only: Process_tables latest_at [OF assms(2,3)] id_apply)
  from analog_row_received [of "analog_inputs ?m" "of_nat k", OF this] show ?thesis
    using assms(1,4,5)
    by (simp add: main_content_def buildAnalogTable_def row_of_index format_0f_int)
qed

theorem analog_measurement_shown_witness:
  "table_rows (ai_table (main_content 5000000000 (fst (Process_Analog 3 4
     ([] @ \<lparr>ix_index = 20, ix_value = double_of_int (- 7), ix_flags = 2\<rparr> # []) new_DataModel)))) ! 21 =
   [cell_of ''20'' [], cell_of ''Codigo de Falta'' [], cell_of ''        -7'' [color Cyan],
    cell_of ''02'' [color Yellow]]"
proof -
  have p: "ix_index \<lparr>ix_index = 20, ix_value = double_of_int (- 7), ix_flags = 2\<rparr> = (of_nat 20 :: u16)"
    "of_nat 20 \<notin> ix_index ` set ([] :: double Indexed list)" "(20 :: nat) < 21"
    "ix_value \<lparr>ix_index = 20, ix_value = double_of_int (- 7), ix_flags = 2\<rparr> = double_of_int (- 7)"
    "\<bar>- 7 :: int\<bar> \<le> 2 ^ 53" by simp_all
  have "pad_left 2 (show_nat 20) = ''20''" "kAnalogInputNames ! 20 = ''Codigo de Falta''"
    "pad_left 10 (show_int (- 7)) = ''        -7''" "formatFlags 2 = ''02''" "flagColor 2 = Yellow"
    by code_simp+
  then show ?thesis
    using analog_measurement_shown [OF p(3,1,2,4,5), of 5000000000 3 4 "[]" new_DataModel] by simp
qed

section \<open>The log box\<close>

lemma contains_sublist: "contains pat s \<longleftrightarrow> sublist pat s"
proof (induction s)
  case (Cons c cs)
  then show ?case
    by (simp add: sublist_Cons_right) (metis append_eq_conv_conj prefix_def take_is_prefix)
qed simp

lemma last_n_last_n: "a \<le> b \<Longrightarrow> last_n a (last_n b xs) = last_n a xs"
proof -
  assume "a \<le> b"
  then have "length xs - (length xs - b) - a + (length xs - b) = length xs - a" by linarith
  then show ?thesis by (simp only: last_n_def drop_drop length_drop)
qed

lemma log_lines_window: "l \<noteq> [] \<Longrightarrow> log_lines l = map log_line (last_n 8 l)"
  by (auto simp: log_lines_def last_n_def Let_def)

text \<open>
  The log box shows the newest 8 messages of all that were ever logged, oldest first, however
  many there were, although the model keeps only 200 of them.
\<close>

theorem screen_shows_newest_messages:
  assumes "length (event_log m) \<le> kMaxLogEntries" and "es \<noteq> []"
  shows "log_box (main_content t (fold (\<lambda>(now, s). addLog now s) es m)) =
    map log_line (last_n 8 (event_log m @ map (\<lambda>(now, s). \<lparr>log_text = s, timestamp = now\<rparr>) es))"
proof -
  let ?all = "event_log m @ map (\<lambda>(now, s). \<lparr>log_text = s, timestamp = now\<rparr>) es"
  have "0 < length (last_n kMaxLogEntries ?all)"
    unfolding length_last_n using assms(2) by (simp add: kMaxLogEntries_def)
  then have "last_n kMaxLogEntries ?all \<noteq> []" by (rule length_greater_0_conv [THEN iffD1])
  then show ?thesis
    using assms(1) by (simp add: main_content_def log_window log_lines_window last_n_last_n kMaxLogEntries_def)
qed

theorem screen_shows_newest_messages_witness:
  "log_box (main_content 9 (fold (\<lambda>(now, s). addLog now s)
     (replicate 300 (1, ''Received'') @ [(2, ''TIMEOUT''), (3, ''b'')]) new_DataModel)) =
   replicate 6 (cell_of ''Received'' [color Green]) @
     [cell_of ''TIMEOUT'' [color Red], cell_of ''b'' [dim]]"
proof -
  have short: "length (event_log new_DataModel) \<le> kMaxLogEntries" by (simp add: new_DataModel_def)
  have some: "replicate 300 (1 :: int, ''Received'') @ [(2, ''TIMEOUT''), (3, ''b'')] \<noteq> []" by simp
  show ?thesis unfolding screen_shows_newest_messages [OF short some] by code_simp
qed

text \<open>
  The colour of a command result is taken from its text: a summary that says SUCCESS, which
  only means that the outstation answered, is shown in green even when the status of every point
  in it is a refusal or an error.
\<close>

theorem refusal_shown_green:
  "List.last (log_box (main_content t (fst (commandCallback now (xs @ ''SUCCESS'' @ ys) items m)))) =
     cell_of (''Command result: '' @ xs @ ''SUCCESS'' @ ys @ concat (map result_detail items))
       [color Green]"
proof -
  let ?s = "''Command result: '' @ xs @ ''SUCCESS'' @ ys @ concat (map result_detail items)"
  have "sublist ''SUCCESS'' ?s"
    by (metis append.assoc sublist_appendI)
  then have "log_decorator ?s = color Green"
    by (simp only: log_decorator_def contains_sublist simp_thms if_True)
  moreover have "List.last (log_lines (push_log e l)) = log_line e" for e l
    by (simp add: log_lines_window push_log_last last_map last_n_def)
      (simp add: push_log_def)
  ultimately show ?thesis
    by (simp add: main_content_def commandCallback_def log_line_def)
qed

end
