(* ===== verification/MasterMain.thy ===== *)
theory MasterMain
  imports MasterScreen Outstation
begin

text \<open>
  The program of the test master, \<open>src/tools/dnp3-master-sim/main.cpp\<close>: the command line, the
  channel listener, and what \<open>main\<close> asks of opendnp3. The text opendnp3 gives a channel state and
  its default stack configuration are arguments.
\<close>

section \<open>The command line\<close>

record Args =
  arg_host :: string
  arg_port :: u16
  localAddr :: u16
  remoteAddr :: u16

definition default_Args :: Args where
  "default_Args =
     \<lparr>arg_host = ''127.0.0.1'', arg_port = 20000, localAddr = 1, remoteAddr = 1024\<rparr>"

text \<open>
  \<open>--help\<close> leaves the program with code 0; a number \<open>stoi\<close> refuses is an exception that nothing
  catches.
\<close>

datatype args_result = Parsed Args | Help_exit | Uncaught conversion_error

definition with_u16 :: "string \<Rightarrow> (u16 \<Rightarrow> args_result) \<Rightarrow> args_result" where
  "with_u16 s next = (case stoi s of Inl e \<Rightarrow> Uncaught e | Inr i \<Rightarrow> next (of_int i))"

text \<open>The arguments after the program name, and the settings so far.\<close>

function parse_from :: "string list \<Rightarrow> Args \<Rightarrow> args_result" where
  "parse_from [] a = Parsed a"
| "parse_from (arg # rest) a =
     (if arg = ''--host'' \<and> rest \<noteq> [] then parse_from (tl rest) (a\<lparr>arg_host := hd rest\<rparr>)
      else if arg = ''--port'' \<and> rest \<noteq> [] then
        with_u16 (hd rest) (\<lambda>n. parse_from (tl rest) (a\<lparr>arg_port := n\<rparr>))
      else if arg = ''--local-addr'' \<and> rest \<noteq> [] then
        with_u16 (hd rest) (\<lambda>n. parse_from (tl rest) (a\<lparr>localAddr := n\<rparr>))
      else if arg = ''--remote-addr'' \<and> rest \<noteq> [] then
        with_u16 (hd rest) (\<lambda>n. parse_from (tl rest) (a\<lparr>remoteAddr := n\<rparr>))
      else if arg = ''--help'' \<or> arg = ''-h'' then Help_exit
      else parse_from rest a)"
  by pat_completeness auto
termination
  by (relation "measure (\<lambda>(ws, a). length ws)") (auto simp: less_Suc_eq_le)

definition parseArgs :: "string list \<Rightarrow> args_result" where
  "parseArgs argv = parse_from (tl argv) default_Args"

section \<open>The channel\<close>

definition ChannelListener_OnStateChange ::
  "(ChannelState \<Rightarrow> string) \<Rightarrow> int \<Rightarrow> ChannelState \<Rightarrow> DataModel \<Rightarrow> DataModel \<times> Event list" where
  "ChannelListener_OnStateChange human now st m =
     (addLog now (''Channel: '' @ human st) (m\<lparr>sim_connected := (st = OPEN)\<rparr>), [Custom])"

section \<open>Set-up\<close>

record MasterStackConfig =
  disableUnsolOnStartup :: bool
  startupIntegrityClassMask :: scan_mask
  master_LocalAddr :: u16
  master_RemoteAddr :: u16

record tcp_client =
  client_name :: string
  endpoint :: "string \<times> u16"
  local_adapter :: string

datatype setup_step =
  AddTCPClient tcp_client | AddMaster string MasterStackConfig | Enable | Loop | Shutdown_manager

definition stack_settings :: "Args \<Rightarrow> MasterStackConfig \<Rightarrow> MasterStackConfig" where
  "stack_settings args config = config
     \<lparr>disableUnsolOnStartup := False, startupIntegrityClassMask := AllClasses,
      master_LocalAddr := localAddr args, master_RemoteAddr := remoteAddr args\<rparr>"

text \<open>The steps of \<open>main\<close> in order; it ends with code 0 also after \<open>--help\<close>.\<close>

definition master_main ::
  "MasterStackConfig \<Rightarrow> string list \<Rightarrow> conversion_error + (setup_step list \<times> int)" where
  "master_main defaults argv =
     (case parseArgs argv of
        Uncaught e \<Rightarrow> Inl e
      | Help_exit \<Rightarrow> Inr ([], 0)
      | Parsed args \<Rightarrow>
          Inr ([AddTCPClient \<lparr>client_name = ''master-sim'',
                  endpoint = (arg_host args, arg_port args), local_adapter = ''0.0.0.0''\<rparr>,
                AddMaster ''master-sim'' (stack_settings args defaults),
                Enable, Loop, Shutdown_manager], 0))"

section \<open>Options are read back\<close>

datatype option_given =
  Host_option string | Port_option u16 | Local_option u16 | Remote_option u16

fun option_words :: "option_given \<Rightarrow> string list" where
  "option_words (Host_option h) = [''--host'', h]"
| "option_words (Port_option n) = [''--port'', show_nat (unat n)]"
| "option_words (Local_option n) = [''--local-addr'', show_nat (unat n)]"
| "option_words (Remote_option n) = [''--remote-addr'', show_nat (unat n)]"

fun apply_option :: "option_given \<Rightarrow> Args \<Rightarrow> Args" where
  "apply_option (Host_option h) a = a\<lparr>arg_host := h\<rparr>"
| "apply_option (Port_option n) a = a\<lparr>arg_port := n\<rparr>"
| "apply_option (Local_option n) a = a\<lparr>localAddr := n\<rparr>"
| "apply_option (Remote_option n) a = a\<lparr>remoteAddr := n\<rparr>"

lemma with_u16_show [simp]: "with_u16 (show_nat (unat n)) f = f n"
proof -
  have "unat n < 2 ^ 31" by (rule less_trans [OF u16_less_65536]) simp
  then show ?thesis by (simp add: with_u16_def stoi_show_nat)
qed

lemma parse_option: "parse_from (option_words opt @ ws) a = parse_from ws (apply_option opt a)"
  by (cases opt) simp_all

text \<open>
  Options written in decimal are read back as given: any list of host, port and address
  options, in any order and with repetitions, followed by words that are no option, gives the
  settings where each option in turn replaces the value before it, starting from the defaults, and
  \<open>main\<close> connects to that host and port with those addresses, asks for an integrity poll of all
  classes and ends with code 0.
\<close>

theorem options_read_back:
  "master_main defaults (program # concat (map option_words opts)) =
     (let args = fold apply_option opts default_Args
      in Inr ([AddTCPClient \<lparr>client_name = ''master-sim'',
                 endpoint = (arg_host args, arg_port args), local_adapter = ''0.0.0.0''\<rparr>,
               AddMaster ''master-sim'' (stack_settings args defaults),
               Enable, Loop, Shutdown_manager], 0))"
proof -
  have "parse_from (concat (map option_words opts)) a = Parsed (fold apply_option opts a)" for a
    by (induction opts arbitrary: a) (simp_all add: parse_option)
  then show ?thesis by (simp add: master_main_def parseArgs_def Let_def)
qed

text \<open>A number above 16 bits is not refused: it is reduced; a text without digits ends the program.\<close>

lemma port_reduced:
  "- (2 ^ 31) \<le> i \<Longrightarrow> i < 2 ^ 31 \<Longrightarrow>
     parseArgs [program, ''--port'', show_int i] = Parsed (default_Args\<lparr>arg_port := of_int i\<rparr>)"
  by (simp add: parseArgs_def with_u16_def stoi_show_int)

lemma port_not_a_number:
  "stoi s = Inl e \<Longrightarrow> parseArgs (program # ''--port'' # s # ws) = Uncaught e"
  by (simp add: parseArgs_def with_u16_def)

section \<open>The connection shown\<close>

lemma connection_shown:
  "conn_text (fst (ChannelListener_OnStateChange human now st m)) =
     (if st = OPEN then cell_of '' CONNECTED '' [color Green, bold]
      else cell_of '' DISCONNECTED '' [color Red, bold])"
  by (simp add: conn_text_def ChannelListener_OnStateChange_def)

end
