(* ===== verification/MasterBridge.thy ===== *)
theory MasterBridge
  imports MasterMain
begin

text \<open>
  The two programs together: a command the operator gives in a dialog of the test master, and
  what the bridge does with it. That opendnp3 takes the value, the operation and the point of a
  command unchanged from the one to the other is how the two models are put together; it is no
  definition here.
\<close>

lemma unat_point: "0 \<le> i \<Longrightarrow> i < 65536 \<Longrightarrow> int (unat (of_int i :: u16)) = i"
  by (simp add: unat_eq_nat_uint uint_word_of_int)

section \<open>Analog commands\<close>

text \<open>
  C30: The value the operator types is the value the client of the bridge receives: for the decimal
  text of a 32-bit integer, Return sends one direct operate, and the request the bridge makes of it
  decodes to the selected point and that integer reduced to 16 bits, which is the integer typed
  exactly when it fits 16 bits. The bridge hands exactly this request to its dispatcher.
\<close>

theorem typed_value_reaches_client:
  assumes "ftxui_ok w" and "ui_ok u" and "show_analog_modal u"
    and "analog_value_str u = show_int i" and "- (2 ^ 31) \<le> i" and "i < 2 ^ 31"
  shows "\<exists>u' index. root_event w now ts Return u = Some (True, u') \<and>
    calls u' = calls u @ [DirectOperate (of_int i) index] \<and> int (unat index) = analog_index u \<and>
    Operate send (AnalogOutputInt16 (of_int i)) index d =
      guarded send (request_of (AnalogOutputInt16 (of_int i)) index) d \<and>
    decode_request (request_of (AnalogOutputInt16 (of_int i)) index) =
      Some (index, AnalogOutputInt16 (of_int i)) \<and>
    (sint (of_int i :: 16 word) = i \<longleftrightarrow> - (2 ^ 15) \<le> i \<and> i < 2 ^ 15)"
proof -
  have "int (unat (of_int (analog_index u) :: u16)) = analog_index u"
    using assms(2) by (intro unat_point) (simp_all add: ui_ok_def)
  then show ?thesis
    using analog_value_sent [OF assms, of now ts] decode_request_of Operate_guarded
    by (metis standard.simps(2))
qed

theorem typed_value_reaches_client_witness:
  "\<exists>u'. root_event plain_widgets 7 ''t'' Return (analog_open ''40000'') = Some (True, u') \<and>
     calls u' = [DirectOperate (- 25536) 4] \<and>
     decode_request (request_of (AnalogOutputInt16 (- 25536)) 4) =
       Some (4, AnalogOutputInt16 (- 25536)) \<and> sint (- 25536 :: 16 word) \<noteq> 40000"
proof -
  have e: "calls (analog_open ''40000'') = []" "analog_index (analog_open ''40000'') = 4"
    "show_analog_modal (analog_open ''40000'')"
    "analog_value_str (analog_open ''40000'') = show_int 40000"
    by (simp_all add: analog_open_def new_ui_def show_40000)
  show ?thesis
    using typed_value_reaches_client
      [OF ftxui_ok_plain ui_ok_examples(2) e(3,4) int_bounds_40000, of 7 "''t''"
        "\<lambda>r d. (Ret SUCCESS :: (unit, CommandStatus) outcome, d)" "()", unfolded e(1,2)]
  proof (elim exE conjE, goal_cases)
    case (1 u' index)
    then have "index = 4" by (simp add: word_uint_eq_iff)
    with 1(1,2,5) show ?case by (intro exI [of _ u']) simp
  qed
qed

section \<open>Relay commands\<close>

text \<open>
  C31: The relay dialog always sends its command with select before operate. The bridge answers the
  selection with SUCCESS exactly when its \<open>command_mode\<close> is \<open>select_before_operate\<close>, which it is not
  by default; then the request it makes of the operation decodes to the point and the operation
  selected in the dialog. In the default mode no relay command gets past its selection.
\<close>

theorem relay_command_reaches_client:
  assumes "ftxui_ok w" and "ui_ok u" and "dialog_of u = Relay_dialog"
    and "opType crob = kOpTypes ! nat (crob_op u)"
  shows "\<exists>u' index. root_event w now ts Return u = Some (True, u') \<and>
    calls u' = calls u @ [SelectAndOperate (opType crob) index] \<and> int (unat index) = crob_index u \<and>
    (Select (command_mode_of mode) (Relay crob) index = SUCCESS \<longleftrightarrow>
       mode = ''select_before_operate'') \<and>
    command_mode default_AppConfig \<noteq> ''select_before_operate'' \<and>
    decode_request (request_of (Relay crob) index) = Some (index, Relay crob)"
proof -
  have relay: "show_crob_modal u" using assms(3) by (auto simp: dialog_of_def split: if_splits)
  have "root_event w now ts Return u = map_option (Pair True) (send_crob now (u\<lparr>tab_index := 1\<rparr>))"
    using assms(1) relay by (simp add: relay_dialog_event catch_first_def send_crob_def split: option.split)
  moreover have "int (unat (of_int (crob_index u) :: u16)) = crob_index u"
    using assms(2) by (intro unat_point) (simp_all add: ui_ok_def)
  moreover have "standard (Relay crob)"
  proof -
    have "nat (crob_op u) < length kOpTypes"
      using assms(2) by (simp add: ui_ok_def kOpTypes_def nat_less_iff)
    then have "opType crob \<in> set kOpTypes" using assms(4) by simp
    then show ?thesis by (auto simp: kOpTypes_def)
  qed
  ultimately show ?thesis
    using assms(2,4) decode_request_of [of "Relay crob"]
    by (simp add: send_crob_total ui_ok_tab Select_crob_def command_mode_of_def default_AppConfig_def)
qed

theorem relay_command_reaches_client_witness:
  "\<exists>u'. root_event plain_widgets 7 ''t'' Return relay_open = Some (True, u') \<and>
     calls u' = [SelectAndOperate LATCH_ON 2] \<and>
     Select (command_mode_of ''direct_operate'')
       (Relay \<lparr>opType = LATCH_ON, count = 1, onTimeMS = 100, offTimeMS = 100\<rparr>) 2 \<noteq> SUCCESS"
proof -
  let ?crob = "\<lparr>opType = LATCH_ON, count = 1, onTimeMS = 100, offTimeMS = 100\<rparr>"
  have e: "calls relay_open = []" "crob_index relay_open = 2" by code_simp+
  have d: "dialog_of relay_open = Relay_dialog" "opType ?crob = kOpTypes ! nat (crob_op relay_open)"
    by code_simp+
  show ?thesis
    using relay_command_reaches_client
      [OF ftxui_ok_plain ui_ok_examples(1) d, of 7 "''t''" "''direct_operate''", unfolded e]
  proof (elim exE conjE, goal_cases)
    case (1 u' index)
    then have "index = 2" by (simp add: word_uint_eq_iff)
    with 1(1,2,4) show ?case by (intro exI [of _ u']) (simp del: Select.simps)
  qed
qed

end
