(* ===== verification/MasterThreads.thy ===== *)
theory MasterThreads
  imports MasterMain "HOL-Library.Multiset"
begin

text \<open>
  The test master while it runs: opendnp3's threads call the SOE handler, the channel listener and
  the command callback, each of which changes the shared model in a lock section and then posts
  an event to the screen; the main thread handles the events of the screen and draws frames
  (\<open>screen.Loop\<close>), and after the loop shuts the manager down. A step is one lock section, one
  post, one handled event or one frame.

  Of ftxui it is used that the loop takes the events in the order of their posting, draws after an
  event it has handled, and returns only after \<open>Exit\<close>; of opendnp3 that \<open>Shutdown\<close> returns when no
  callback is running.
\<close>

section \<open>Callbacks\<close>

text \<open>A call by opendnp3, with the two readings of the clock and what is passed.\<close>

datatype callback =
  Binary_inputs_arrive int int "bool Indexed list"
| Analog_inputs_arrive int int "double Indexed list"
| Binary_outputs_arrive int int "bool Indexed list"
| Analog_outputs_arrive int int "double Indexed list"
| Others_arrive "double Indexed list"
| Channel_changes int ChannelState
| Command_completes int string "(u16 \<times> string) list"

fun run_callback :: "(ChannelState \<Rightarrow> string) \<Rightarrow> callback \<Rightarrow> DataModel \<Rightarrow> DataModel \<times> Event list" where
  "run_callback human (Binary_inputs_arrive now later bs) m = Process_Binary now later bs m"
| "run_callback human (Analog_inputs_arrive now later vs) m = Process_Analog now later vs m"
| "run_callback human (Binary_outputs_arrive now later bs) m = Process_BinaryOutputStatus now later bs m"
| "run_callback human (Analog_outputs_arrive now later vs) m = Process_AnalogOutputStatus now later vs m"
| "run_callback human (Others_arrive vs) m = Process_ignored vs m"
| "run_callback human (Channel_changes now st) m = ChannelListener_OnStateChange human now st m"
| "run_callback human (Command_completes now summary items) m = commandCallback now summary items m"

section \<open>The time of a poll\<close>

text \<open>The members of \<open>struct tm\<close> that are read; \<open>localtime_r\<close>, which knows the time zone, is an argument.\<close>

record tm =
  tm_hour :: nat
  tm_min :: nat
  tm_sec :: nat

definition two_digits :: "nat \<Rightarrow> string" where
  "two_digits n = (if n < 10 then ''0'' @ show_nat n else show_nat n)"

definition wallClockNow :: "(int \<Rightarrow> tm) \<Rightarrow> int \<Rightarrow> string" where
  "wallClockNow local secs =
     (let t = local secs
      in two_digits (tm_hour t) @ '':'' @ two_digits (tm_min t) @ '':'' @ two_digits (tm_sec t))"

section \<open>State and steps\<close>

datatype sim_phase = Looping | Shutting_down | Ended

text \<open>
  \<open>to_post\<close> holds the events of callbacks that have left their lock section and not yet posted,
  \<open>shown\<close> what the last frame drew: the picture of the selected tab alone. \<open>frame\<close> records the state
  that frame was drawn from and \<open>heard\<close> the callbacks; no step reads them.
\<close>

record 'w simulator =
  screen_ui :: "'w ui"
  posted :: "Event list"
  to_post :: "Event multiset"
  frame :: "'w ui option"
  shown :: "picture option"
  stale :: bool
  sim_phase :: sim_phase
  heard :: "callback list"

definition sim_initial :: "'w \<Rightarrow> 'w simulator \<Rightarrow> bool" where
  "sim_initial w0 s \<longleftrightarrow>
     s = \<lparr>screen_ui = new_ui w0, posted = [], to_post = {#}, frame = None, shown = None, stale = True,
          sim_phase = Looping, heard = []\<rparr>"

definition heard_by :: "(ChannelState \<Rightarrow> string) \<Rightarrow> callback \<Rightarrow> 'w simulator \<Rightarrow> 'w simulator" where
  "heard_by human c s =
     (case run_callback human c (model (screen_ui s)) of
        (m, es) \<Rightarrow> s\<lparr>screen_ui := (screen_ui s)\<lparr>model := m\<rparr>, to_post := to_post s + mset es,
          heard := heard s @ [c]\<rparr>)"

inductive mstep ::
  "('w, 'z) widgets_scheme \<Rightarrow> (ChannelState \<Rightarrow> string) \<Rightarrow> (int \<Rightarrow> tm)
     \<Rightarrow> 'w simulator \<Rightarrow> 'w simulator \<Rightarrow> bool"
  for w human local where
  callback_runs: "sim_phase s \<noteq> Ended \<Longrightarrow> mstep w human local s (heard_by human c s)"
| event_posted:
    "e \<in># to_post s \<Longrightarrow>
       mstep w human local s (s\<lparr>posted := posted s @ [e], to_post := to_post s - {#e#}\<rparr>)"
| key_pressed: "sim_phase s = Looping \<Longrightarrow> mstep w human local s (s\<lparr>posted := posted s @ [e]\<rparr>)"
| event_handled:
    "sim_phase s = Looping \<Longrightarrow> posted s = e # es \<Longrightarrow>
       root_event w now (wallClockNow local secs) e (screen_ui s) = Some (used, u) \<Longrightarrow>
       mstep w human local s (s\<lparr>screen_ui := u, posted := es, stale := True\<rparr>)"
| frame_drawn:
    "sim_phase s = Looping \<Longrightarrow> stale s \<Longrightarrow>
       mstep w human local s (s\<lparr>frame := Some (screen_ui s),
         shown := Some (root_picture now (screen_ui s)), stale := False\<rparr>)"
| loop_returns:
    "sim_phase s = Looping \<Longrightarrow> Screen_exit \<in> set (calls (screen_ui s)) \<Longrightarrow>
       mstep w human local s (s\<lparr>sim_phase := Shutting_down\<rparr>)"
| manager_down:
    "sim_phase s = Shutting_down \<Longrightarrow> to_post s = {#} \<Longrightarrow>
       mstep w human local s (s\<lparr>sim_phase := Ended\<rparr>)"

inductive simulated ::
  "('w, 'z) widgets_scheme \<Rightarrow> (ChannelState \<Rightarrow> string) \<Rightarrow> (int \<Rightarrow> tm) \<Rightarrow> 'w
     \<Rightarrow> 'w simulator \<Rightarrow> bool"
  for w human local w0 where
  simulated_initial: "sim_initial w0 s \<Longrightarrow> simulated w human local w0 s"
| simulated_step: "simulated w human local w0 s \<Longrightarrow> mstep w human local s t \<Longrightarrow> simulated w human local w0 t"

interpretation simulation: transition_system "sim_initial w0" "mstep w human local" "simulated w human local w0"
  for w human local w0
proof unfold_locales
  fix s P
  assume "simulated w human local w0 s" and "\<And>s. sim_initial w0 s \<Longrightarrow> P s"
    and "\<And>s t. simulated w human local w0 s \<Longrightarrow> P s \<Longrightarrow> mstep w human local s t \<Longrightarrow> P t"
  then show "P s" by (induction rule: simulated.induct) blast+
qed (blast intro: simulated.intros)+

section \<open>The screen stays well-formed\<close>

definition screen_ok :: "'w simulator \<Rightarrow> bool" where
  "screen_ok s \<longleftrightarrow> ui_ok (screen_ui s) \<and> (sim_phase s = Ended \<longrightarrow> to_post s = {#})"

lemmas callback_defs =
  Process_Binary_def Process_Analog_def Process_BinaryOutputStatus_def
  Process_AnalogOutputStatus_def Process_ignored_def ChannelListener_OnStateChange_def
  commandCallback_def Let_def

lemma fold_keeps: "(\<And>x s. f (g x s) = f s) \<Longrightarrow> f (fold g xs s) = f s"
  by (induction xs arbitrary: s) simp_all

lemma table_folds [simp]:
  "analog_inputs (fold (\<lambda>p m. m\<lparr>binary_inputs := F p m\<rparr>) xs m) = analog_inputs m"
  "binary_outputs (fold (\<lambda>p m. m\<lparr>binary_inputs := F p m\<rparr>) xs m) = binary_outputs m"
  "analog_outputs (fold (\<lambda>p m. m\<lparr>binary_inputs := F p m\<rparr>) xs m) = analog_outputs m"
  "event_log (fold (\<lambda>p m. m\<lparr>binary_inputs := F p m\<rparr>) xs m) = event_log m"
  "sim_connected (fold (\<lambda>p m. m\<lparr>binary_inputs := F p m\<rparr>) xs m) = sim_connected m"
  "binary_inputs (fold (\<lambda>p m. m\<lparr>analog_inputs := F p m\<rparr>) xs m) = binary_inputs m"
  "binary_outputs (fold (\<lambda>p m. m\<lparr>analog_inputs := F p m\<rparr>) xs m) = binary_outputs m"
  "analog_outputs (fold (\<lambda>p m. m\<lparr>analog_inputs := F p m\<rparr>) xs m) = analog_outputs m"
  "event_log (fold (\<lambda>p m. m\<lparr>analog_inputs := F p m\<rparr>) xs m) = event_log m"
  "sim_connected (fold (\<lambda>p m. m\<lparr>analog_inputs := F p m\<rparr>) xs m) = sim_connected m"
  "binary_inputs (fold (\<lambda>p m. m\<lparr>binary_outputs := F p m\<rparr>) xs m) = binary_inputs m"
  "analog_inputs (fold (\<lambda>p m. m\<lparr>binary_outputs := F p m\<rparr>) xs m) = analog_inputs m"
  "analog_outputs (fold (\<lambda>p m. m\<lparr>binary_outputs := F p m\<rparr>) xs m) = analog_outputs m"
  "event_log (fold (\<lambda>p m. m\<lparr>binary_outputs := F p m\<rparr>) xs m) = event_log m"
  "sim_connected (fold (\<lambda>p m. m\<lparr>binary_outputs := F p m\<rparr>) xs m) = sim_connected m"
  "binary_inputs (fold (\<lambda>p m. m\<lparr>analog_outputs := F p m\<rparr>) xs m) = binary_inputs m"
  "analog_inputs (fold (\<lambda>p m. m\<lparr>analog_outputs := F p m\<rparr>) xs m) = analog_inputs m"
  "binary_outputs (fold (\<lambda>p m. m\<lparr>analog_outputs := F p m\<rparr>) xs m) = binary_outputs m"
  "event_log (fold (\<lambda>p m. m\<lparr>analog_outputs := F p m\<rparr>) xs m) = event_log m"
  "sim_connected (fold (\<lambda>p m. m\<lparr>analog_outputs := F p m\<rparr>) xs m) = sim_connected m"
  by (rule fold_keeps, simp)+

lemma callback_log:
  "event_log (fst (run_callback human c m)) \<in> {event_log m} \<union> range (\<lambda>e. push_log e (event_log m))"
  by (cases c) (simp_all add: callback_defs)

lemma screen_ok_initial: "sim_initial w0 s \<Longrightarrow> screen_ok s"
  by (simp add: sim_initial_def screen_ok_def ui_ok_def new_ui_def new_DataModel_def)

lemma screen_ok_step:
  assumes "mstep w human local s t" and "ftxui_ok w" and "screen_ok s"
  shows "screen_ok t"
  using assms(1)
proof cases
  case (callback_runs c)
  have "length (event_log (fst (run_callback human c (model (screen_ui s))))) \<le> kMaxLogEntries"
    using callback_log [of human c "model (screen_ui s)"] assms(3) push_log_bound
    by (auto simp: screen_ok_def ui_ok_def)
  with callback_runs assms(3) show ?thesis
    by (simp add: screen_ok_def heard_by_def ui_ok_def split: prod.split_asm)
next
  case (event_handled e es now secs used u)
  with root_event_total [OF assms(2), of "screen_ui s" now "wallClockNow local secs" e] assms(3) show ?thesis
    by (simp add: screen_ok_def)
qed (use assms(3) in \<open>auto simp: screen_ok_def\<close>)

lemma simulated_screen_ok: "ftxui_ok w \<Longrightarrow> simulated w human local w0 s \<Longrightarrow> screen_ok s"
  by (rule simulation.invariant [where P = screen_ok])
    (auto intro: screen_ok_initial screen_ok_step)

section \<open>No frame is forgotten\<close>

text \<open>The last frame shows the present state, or something that leads to a new one is still to come.\<close>

definition frame_follows :: "'w simulator \<Rightarrow> bool" where
  "frame_follows s \<longleftrightarrow>
     frame s = Some (screen_ui s) \<or> stale s \<or> posted s \<noteq> [] \<or> to_post s \<noteq> {#}"

lemma callback_posts:
  "snd (run_callback human c m) = [] \<Longrightarrow> fst (run_callback human c m) = m"
  by (cases c) (simp_all add: callback_defs)

lemma frame_follows_step: "mstep w human local s t \<Longrightarrow> frame_follows s \<Longrightarrow> frame_follows t"
proof (erule mstep.cases)
  fix s' :: "'a simulator" and c
  assume "s = s'" "t = heard_by human c s'" "frame_follows s"
  then show "frame_follows t"
    using callback_posts [of human c "model (screen_ui s)"]
    by (auto simp: frame_follows_def heard_by_def split: prod.splits)
qed (auto simp: frame_follows_def)

lemma frame_follows_initial: "sim_initial w0 s \<Longrightarrow> frame_follows s"
  by (simp add: frame_follows_def sim_initial_def)

lemma simulated_frame_follows: "simulated w human local w0 s \<Longrightarrow> frame_follows s"
  by (rule simulation.invariant [where P = frame_follows])
    (auto intro: frame_follows_initial frame_follows_step)

section \<open>The data is what the outstation sent\<close>

text \<open>The specification: the measurements of a callback for each table, and the latest of a run.\<close>

datatype point_kind = Binary_input | Analog_input | Binary_output | Analog_output

fun model_table :: "point_kind \<Rightarrow> DataModel \<Rightarrow> u16 \<rightharpoonup> PointValue" where
  "model_table Binary_input m = binary_inputs m"
| "model_table Analog_input m = analog_inputs m"
| "model_table Binary_output m = binary_outputs m"
| "model_table Analog_output m = analog_outputs m"

definition measured :: "point_kind \<Rightarrow> callback \<Rightarrow> (u16 \<times> PointValue) list" where
  "measured k c =
     (case (k, c) of
        (Binary_input, Binary_inputs_arrive now later bs) \<Rightarrow>
          map (\<lambda>p. (ix_index p, point_of now (of_bool_value (ix_value p)) (ix_flags p))) bs
      | (Analog_input, Analog_inputs_arrive now later vs) \<Rightarrow>
          map (\<lambda>p. (ix_index p, point_of now (ix_value p) (ix_flags p))) vs
      | (Binary_output, Binary_outputs_arrive now later bs) \<Rightarrow>
          map (\<lambda>p. (ix_index p, point_of now (of_bool_value (ix_value p)) (ix_flags p))) bs
      | (Analog_output, Analog_outputs_arrive now later vs) \<Rightarrow>
          map (\<lambda>p. (ix_index p, point_of now (ix_value p) (ix_flags p))) vs
      | _ \<Rightarrow> [])"

definition last_measured :: "point_kind \<Rightarrow> callback list \<Rightarrow> u16 \<rightharpoonup> PointValue" where
  "last_measured k cs = map_of (rev (concat (map (measured k) cs)))"

definition channel_next :: "callback \<Rightarrow> bool \<Rightarrow> bool" where
  "channel_next c up = (case c of Channel_changes now st \<Rightarrow> st = OPEN | _ \<Rightarrow> up)"

definition channel_after :: "callback list \<Rightarrow> bool" where
  "channel_after cs = fold channel_next cs False"

lemma callback_table:
  "model_table k (fst (run_callback human c m)) = model_table k m ++ map_of (rev (measured k c))"
proof -
  have gen: "(case map_of xs i of Some v \<Rightarrow> Some v | None \<Rightarrow> f i) = (f ++ map_of xs) i"
    for xs i and f :: "u16 \<rightharpoonup> PointValue" by (simp add: map_add_def)
  show ?thesis
    by (cases c; cases k)
      (simp_all add: callback_defs measured_def fun_eq_iff gen binary_inputs_table.table_all
        analog_inputs_table.table_all binary_outputs_table.table_all analog_outputs_table.table_all)
qed

lemma callback_channel:
  "sim_connected (fst (run_callback human c m)) = channel_next c (sim_connected m)"
  by (cases c) (simp_all add: callback_defs channel_next_def)

text \<open>The operator's events leave the tables and the connection alone.\<close>

definition received_data :: "DataModel \<Rightarrow> (point_kind \<Rightarrow> u16 \<rightharpoonup> PointValue) \<times> bool" where
  "received_data m = ((\<lambda>k. model_table k m), sim_connected m)"

lemma received_data_eq:
  "received_data m = d \<longleftrightarrow>
     binary_inputs m = fst d Binary_input \<and> analog_inputs m = fst d Analog_input \<and>
     binary_outputs m = fst d Binary_output \<and> analog_outputs m = fst d Analog_output \<and>
     sim_connected m = snd d"
proof -
  have "(\<lambda>k. model_table k m) = f \<longleftrightarrow>
      binary_inputs m = f Binary_input \<and> analog_inputs m = f Analog_input \<and>
      binary_outputs m = f Binary_output \<and> analog_outputs m = f Analog_output" for f
    by (auto intro!: ext elim: point_kind.exhaust) (metis model_table.simps point_kind.exhaust)
  then show ?thesis by (cases d) (auto simp: received_data_def)
qed

lemma received_data_fields [simp]:
  "fst (received_data m) k = model_table k m" "snd (received_data m) = sim_connected m"
  by (simp_all add: received_data_def)

lemma received_data_log [simp]:
  "received_data (addLog now s m) = received_data m"
  "received_data (m\<lparr>last_poll_type := a, last_poll_time := b\<rparr>) = received_data m"
  by (simp_all add: received_data_eq)

lemma root_event_data:
  assumes "ftxui_ok w" and "root_event w now ts e u = Some (used, u')"
  shows "received_data (model u') = received_data (model u)"
proof -
  consider (relay) "show_crob_modal u" | (analog) "\<not> show_crob_modal u" "show_analog_modal u"
    | (main) "\<not> show_crob_modal u" "\<not> show_analog_modal u" by blast
  then show ?thesis
  proof cases
    case relay
    show ?thesis using assms(2) unfolding relay_dialog_event [OF assms(1) relay]
      by (cases e) (auto simp: catch_first_def radiobox_event_def send_crob_def Let_def
          split: option.splits prod.splits)
  next
    case analog
    show ?thesis using assms(2) unfolding analog_dialog_event [OF assms(1) analog(2,1)]
      by (cases e) (auto simp: catch_first_def input_field_event_def send_analog_def Let_def
          split: option.splits prod.splits sum.splits)
  next
    case main
    show ?thesis using assms(2) unfolding main_screen_event [OF assms(1) main(2,1)]
      by (cases e) (auto simp: main_key_def start_poll_def Let_def split: if_splits)
  qed
qed

lemma heard_by_fields:
  "screen_ui (heard_by human c s) = (screen_ui s)\<lparr>model := fst (run_callback human c (model (screen_ui s)))\<rparr>"
  "heard (heard_by human c s) = heard s @ [c]"
  by (simp_all add: heard_by_def split: prod.split)

lemma heard_data:
  "received_data (fst (run_callback human c m)) =
     ((\<lambda>k. fst (received_data m) k ++ map_of (rev (measured k c))),
      channel_next c (snd (received_data m)))"
  by (simp add: received_data_def [of "fst (run_callback human c m)"] callback_table callback_channel)

lemma heard_snoc:
  "last_measured k (cs @ [c]) = last_measured k cs ++ map_of (rev (measured k c))"
  "channel_after (cs @ [c]) = channel_next c (channel_after cs)"
  by (simp_all add: last_measured_def channel_after_def)

definition data_current :: "'w simulator \<Rightarrow> bool" where
  "data_current s \<longleftrightarrow>
     received_data (model (screen_ui s)) = ((\<lambda>k. last_measured k (heard s)), channel_after (heard s))"

lemma data_current_initial: "sim_initial w0 s \<Longrightarrow> data_current s"
  by (simp add: data_current_def received_data_eq last_measured_def channel_after_def
      sim_initial_def new_ui_def new_DataModel_def)

lemma data_current_step:
  assumes "mstep w human local s t" and "ftxui_ok w" and "data_current s"
  shows "data_current t"
  using assms(1)
proof cases
  case (callback_runs c)
  with assms(3) show ?thesis
    by (simp add: data_current_def heard_by_fields heard_data heard_snoc)
next
  case (event_handled e es now secs used u)
  with root_event_data [OF assms(2) event_handled(4)] assms(3) show ?thesis
    by (simp add: data_current_def)
qed (use assms(3) in \<open>simp_all add: data_current_def\<close>)

lemma simulated_data_current: "ftxui_ok w \<Longrightarrow> simulated w human local w0 s \<Longrightarrow> data_current s"
  by (rule simulation.invariant [where P = data_current])
    (auto intro: data_current_initial data_current_step)

section \<open>What is drawn\<close>

text \<open>The picture is that of the state recorded with it; an open dialog is the selected tab.\<close>

definition drawn :: "'w simulator \<Rightarrow> bool" where
  "drawn s \<longleftrightarrow> (\<exists>now. shown s = map_option (root_picture now) (frame s))"

definition tab_ok :: "'w ui \<Rightarrow> bool" where
  "tab_ok u \<longleftrightarrow> (show_crob_modal u \<longrightarrow> tab_index u = 1) \<and> (show_analog_modal u \<longrightarrow> tab_index u = 2)"

lemma drawn_step: "mstep w human local s t \<Longrightarrow> drawn s \<Longrightarrow> drawn t"
proof (erule mstep.cases)
  fix s' :: "'a simulator" and c
  assume "s = s'" "t = heard_by human c s'" "drawn s"
  then show "drawn t" by (simp add: drawn_def heard_by_def split: prod.split)
qed (auto simp: drawn_def)

lemma simulated_drawn: "simulated w human local w0 s \<Longrightarrow> drawn s"
  by (rule simulation.invariant [where P = drawn])
    (blast intro: drawn_step | simp add: drawn_def sim_initial_def)+

lemma root_event_tab:
  assumes "ftxui_ok w" and "ui_ok u" and "root_event w now ts e u = Some (used, u')"
  shows "tab_ok u'"
proof -
  consider (relay) "show_crob_modal u" "\<not> show_analog_modal u"
    | (analog) "\<not> show_crob_modal u" "show_analog_modal u"
    | (main) "\<not> show_crob_modal u" "\<not> show_analog_modal u"
    using assms(2) unfolding ui_ok_def by blast
  then show ?thesis
  proof cases
    case relay
    show ?thesis using assms(3) relay(2) unfolding relay_dialog_event [OF assms(1) relay(1)]
      by (cases e) (auto simp: catch_first_def radiobox_event_def send_crob_def tab_ok_def Let_def
          split: option.splits prod.splits)
  next
    case analog
    show ?thesis using assms(3) analog(1) unfolding analog_dialog_event [OF assms(1) analog(2,1)]
      by (cases e) (auto simp: catch_first_def input_field_event_def send_analog_def tab_ok_def Let_def
          split: option.splits prod.splits sum.splits)
  next
    case main
    show ?thesis using assms(3) main unfolding main_screen_event [OF assms(1) main(2,1)]
      by (cases e) (auto simp: main_key_def start_poll_def tab_ok_def Let_def split: if_splits)
  qed
qed

lemma tab_ok_step:
  assumes "mstep w human local s t" and "ftxui_ok w" and "screen_ok s" and "tab_ok (screen_ui s)"
  shows "tab_ok (screen_ui t)"
  using assms(1)
proof cases
  case (callback_runs c)
  then show ?thesis using assms(4) by (simp add: heard_by_fields tab_ok_def)
next
  case (event_handled e es now secs used u)
  have "ui_ok (screen_ui s)" using assms(3) by (simp add: screen_ok_def)
  from root_event_tab [OF assms(2) this event_handled(4)] event_handled(1) show ?thesis by simp
qed (use assms(4) in simp_all)

lemma simulated_tab_ok:
  assumes "ftxui_ok w" and "simulated w human local w0 s"
  shows "tab_ok (screen_ui s)"
  using assms(2)
  by (rule simulation.invariant_with [where P = "\<lambda>s. tab_ok (screen_ui s)" and Q = screen_ok])
    (blast intro: tab_ok_step simulated_screen_ok assms(1) | simp add: tab_ok_def sim_initial_def new_ui_def)+

text \<open>
  C26: In any interleaving of callbacks, keys, events and frames, a screen with nothing left to do is
  current: when no event is posted or to be posted and the frame is valid, what the last frame
  drew is the selected tab of the present state. On the main tab the four tables are those of the last
  measurement received for every point, in the order in which the callbacks took the lock, and
  the connection text is that of the last channel state: no callback is forgotten by the
  drawing, and no key ever touches the data. On the other two tabs it is the relay dialog or the
  analog dialog with its present point, selection and text, without the tables; an open dialog is
  always the one drawn.
\<close>

theorem quiet_screen_is_current:
  assumes "ftxui_ok w" and "simulated w human local w0 s"
    and "posted s = []" and "to_post s = {#}" and "\<not> stale s"
  shows "frame s = Some (screen_ui s) \<and> tab_index (screen_ui s) \<in> {0, 1, 2} \<and>
    (tab_index (screen_ui s) = 0 \<longrightarrow> (\<exists>t view. shown s = Some (Main_picture view) \<and>
      bi_table view =
        buildBinaryTable ''Binary Inputs'' kBinaryInputNames (last_measured Binary_input (heard s)) t \<and>
      bo_table view =
        buildBinaryTable ''Binary Output Status'' kBinaryOutputNames (last_measured Binary_output (heard s)) t \<and>
      ai_table view =
        buildAnalogTable ''Analog Inputs'' kAnalogInputNames (last_measured Analog_input (heard s)) t \<and>
      ao_table view =
        buildAnalogTable ''Analog Output Status'' kAnalogOutputNames (last_measured Analog_output (heard s)) t \<and>
      header_box view ! 1 =
        (if channel_after (heard s) then cell_of '' CONNECTED '' [color Green, bold]
         else cell_of '' DISCONNECTED '' [color Red, bold]))) \<and>
    (tab_index (screen_ui s) = 1 \<longrightarrow> shown s = Some (Relay_picture
      (dialog_texts '' Send CROB Command '' kBinaryOutputNames (crob_index (screen_ui s)) '' Operation:'')
      crob_op_entries (crob_op (screen_ui s)))) \<and>
    (tab_index (screen_ui s) = 2 \<longrightarrow> shown s = Some (Analog_picture
      (dialog_texts '' Send Analog Output '' kAnalogOutputNames (analog_index (screen_ui s)) '' Value: '')
      (analog_value_str (screen_ui s)) ''0'')) \<and>
    (show_crob_modal (screen_ui s) \<longrightarrow> tab_index (screen_ui s) = 1) \<and>
    (show_analog_modal (screen_ui s) \<longrightarrow> tab_index (screen_ui s) = 2)"
proof -
  have frame: "frame s = Some (screen_ui s)"
    using simulated_frame_follows [OF assms(2)] assms(3-5) by (simp add: frame_follows_def)
  then obtain now where now: "shown s = Some (root_picture now (screen_ui s))"
    using simulated_drawn [OF assms(2)] by (auto simp: drawn_def)
  have tab: "tab_index (screen_ui s) \<in> {0, 1, 2}"
    using simulated_screen_ok [OF assms(1,2)] by (auto simp: screen_ok_def ui_ok_def)
  have data: "received_data (model (screen_ui s)) = ((\<lambda>k. last_measured k (heard s)), channel_after (heard s))"
    using simulated_data_current [OF assms(1,2)] by (simp add: data_current_def)
  have main: "\<exists>t view. shown s = Some (Main_picture view) \<and>
      bi_table view =
        buildBinaryTable ''Binary Inputs'' kBinaryInputNames (last_measured Binary_input (heard s)) t \<and>
      bo_table view =
        buildBinaryTable ''Binary Output Status'' kBinaryOutputNames (last_measured Binary_output (heard s)) t \<and>
      ai_table view =
        buildAnalogTable ''Analog Inputs'' kAnalogInputNames (last_measured Analog_input (heard s)) t \<and>
      ao_table view =
        buildAnalogTable ''Analog Output Status'' kAnalogOutputNames (last_measured Analog_output (heard s)) t \<and>
      header_box view ! 1 =
        (if channel_after (heard s) then cell_of '' CONNECTED '' [color Green, bold]
         else cell_of '' DISCONNECTED '' [color Red, bold])" if "tab_index (screen_ui s) = 0"
    using data now root_picture_tabs(1) [OF that, of now]
    by (intro exI [of _ now] exI [of _ "main_content now (model (screen_ui s))"])
      (simp add: received_data_eq main_content_def header_line_def conn_text_def)
  show ?thesis
    using frame tab main simulated_tab_ok [OF assms(1,2)] now
      root_picture_tabs(2) [of "screen_ui s" now] root_picture_tabs(3) [of "screen_ui s" now]
    unfolding tab_ok_def crob_modal_renderer_def analog_modal_renderer_def crob_modal_texts_def
      analog_modal_texts_def by simp
qed

section \<open>The screen catches up\<close>

definition caught_up :: "'w simulator \<Rightarrow> bool" where
  "caught_up s \<longleftrightarrow> posted s = [] \<and> to_post s = {#} \<and> \<not> stale s"

definition screen_work :: "'w simulator \<Rightarrow> nat" where
  "screen_work s = 3 * size (to_post s) + 2 * length (posted s) + (if stale s then 1 else 0)"

lemma screen_moves:
  assumes "ftxui_ok w" and "screen_ok s" and "sim_phase s = Looping" and "\<not> caught_up s"
  shows "\<exists>t. mstep w human local s t \<and> screen_work t < screen_work s \<and> heard t = heard s \<and>
    sim_phase t = Looping"
proof -
  consider (post) e where "e \<in># to_post s" | (event) e es where "posted s = e # es"
    | (draw) "stale s"
    using assms(4) unfolding caught_up_def by (metis list.exhaust multiset_nonemptyE)
  then show ?thesis
  proof cases
    case (post e)
    then obtain M where "to_post s = add_mset e M" by (blast dest: multi_member_split)
    then show ?thesis
      using event_posted [OF post, of w human local] assms(3)
      by (intro exI [of _ "s\<lparr>posted := posted s @ [e], to_post := to_post s - {#e#}\<rparr>"])
        (simp add: screen_work_def)
  next
    case (event e es)
    obtain used u where r: "root_event w 0 (wallClockNow local 0) e (screen_ui s) = Some (used, u)"
      using root_event_total [OF assms(1), of "screen_ui s" 0 "wallClockNow local 0" e] assms(2)
      by (auto simp: screen_ok_def handled_def split: option.splits)
    show ?thesis
      using event_handled [OF assms(3) event r, of human] event assms(3)
      by (intro exI [of _ "s\<lparr>screen_ui := u, posted := es, stale := True\<rparr>"])
        (simp add: screen_work_def)
  next
    case draw
    then show ?thesis
      using frame_drawn [OF assms(3) draw, of w human local 0] assms(3)
      by (intro exI [of _ "s\<lparr>frame := Some (screen_ui s), shown := Some (root_picture 0 (screen_ui s)),
          stale := False\<rparr>"])
        (simp add: screen_work_def)
  qed
qed

text \<open>A post, an event or a frame: a step that is no callback, no key and no end of the loop.\<close>

definition screen_step ::
  "('w, 'z) widgets_scheme \<Rightarrow> (ChannelState \<Rightarrow> string) \<Rightarrow> (int \<Rightarrow> tm)
     \<Rightarrow> 'w simulator \<Rightarrow> 'w simulator \<Rightarrow> bool" where
  "screen_step w human local s t \<longleftrightarrow>
     mstep w human local s t \<and> heard t = heard s \<and> sim_phase t = sim_phase s \<and>
     \<not> (\<exists>e. t = s\<lparr>posted := posted s @ [e]\<rparr>)"

lemma screen_step_work: "screen_step w human local s t \<Longrightarrow> screen_work t < screen_work s"
  unfolding screen_step_def
proof (elim conjE mstep.cases)
  fix s' :: "'a simulator" and e
  assume "e \<in># to_post s'" "s = s'" "t = s'\<lparr>posted := posted s' @ [e], to_post := to_post s' - {#e#}\<rparr>"
  then show "screen_work t < screen_work s"
    by (auto simp: screen_work_def dest!: multi_member_split)
qed (auto simp: screen_work_def heard_by_fields)

lemma screen_step_exists:
  assumes "ftxui_ok w" and "simulated w human local w0 s" and "sim_phase s = Looping" and "\<not> caught_up s"
  shows "\<exists>t. screen_step w human local s t"
proof -
  obtain t where t: "mstep w human local s t" "screen_work t < screen_work s" "heard t = heard s"
    "sim_phase t = Looping"
    using screen_moves [OF assms(1) simulated_screen_ok [OF assms(1,2)] assms(3,4)] by blast
  have "t \<noteq> s\<lparr>posted := posted s @ [e]\<rparr>" for e
    using t(2) by (auto simp: screen_work_def)
  with t assms(3) show ?thesis by (auto simp: screen_step_def)
qed

lemma screen_run:
  assumes "(screen_step w human local ^^ n) s t" and "simulated w human local w0 s"
  shows "simulated w human local w0 t \<and> n + screen_work t \<le> screen_work s \<and> heard t = heard s \<and>
    sim_phase t = sim_phase s"
  using assms(1)
proof (induction n arbitrary: t)
  case (Suc n)
  then obtain u where u: "(screen_step w human local ^^ n) s u" "screen_step w human local u t" by auto
  then have "simulated w human local w0 t"
    using Suc.IH [OF u(1)] by (auto simp: screen_step_def intro: simulated_step)
  then show ?case
    using Suc.IH [OF u(1)] screen_step_work [OF u(2)] u(2) by (auto simp: screen_step_def)
qed (use assms(2) in simp)

lemma screen_run_to_rest:
  "simulated w human local w0 s \<Longrightarrow>
     \<exists>n t. (screen_step w human local ^^ n) s t \<and> \<not> (\<exists>u. screen_step w human local t u)"
proof (induction "screen_work s" arbitrary: s rule: less_induct)
  case less
  show ?case
  proof (cases "\<exists>u. screen_step w human local s u")
    case False
    then show ?thesis by (intro exI [of _ 0] exI [of _ s]) simp
  next
    case True
    then obtain u where u: "screen_step w human local s u" by blast
    then have "simulated w human local w0 u"
      using less.prems by (auto simp: screen_step_def intro: simulated_step)
    then obtain n t where "(screen_step w human local ^^ n) u t" "\<not> (\<exists>v. screen_step w human local t v)"
      using less.hyps [OF screen_step_work [OF u]] by blast
    with u show ?thesis
      by (intro exI [of _ "Suc n"] exI [of _ t]) (auto intro: relpowp_Suc_I2 simp del: relpowp.simps)
  qed
qed

lemma catch_up_run:
  assumes "ftxui_ok w" and "simulated w human local w0 s" and "sim_phase s = Looping"
  shows "\<exists>n t. (screen_step w human local ^^ n) s t \<and> caught_up t"
  using screen_run_to_rest [OF assms(2)] screen_run [OF _ assms(2)] screen_step_exists [OF assms(1)]
    assms(3) by metis

text \<open>
  C27: The screen always catches up: while the event loop runs, whatever callbacks are between
  their lock section and their post and whatever events are queued, every run of posts, events
  and frames without a new callback or key is bounded, and as long as there is something left to
  do there is a next step; where none is left, the last frame shows the present state.
\<close>

theorem screen_catches_up:
  assumes "ftxui_ok w" and "simulated w human local w0 s" and "sim_phase s = Looping"
    and "(screen_step w human local ^^ n) s t"
  shows "n \<le> screen_work s \<and> heard t = heard s \<and>
    ((\<exists>u. screen_step w human local t u) \<or> caught_up t \<and> frame t = Some (screen_ui t))"
proof -
  have run: "simulated w human local w0 t" "n + screen_work t \<le> screen_work s" "heard t = heard s"
    "sim_phase t = Looping"
    using screen_run [OF assms(4,2)] assms(3) by simp_all
  have "frame t = Some (screen_ui t)" if "caught_up t"
    using simulated_frame_follows [OF run(1)] that by (simp add: frame_follows_def caught_up_def)
  with run(2,3) screen_step_exists [OF assms(1) run(1,4)] show ?thesis by auto
qed

text \<open>
  C25: Under any interleaving of callbacks and keys the test master is well-formed: every index stays
  in the range of its array, at most one dialog is open, the tab is one of the three children and
  the log stays within its bound; so the next event, whatever it is, is handled without an access
  out of bounds. And when \<open>main\<close> has shut the manager down, no callback is left that would post
  to the screen.
\<close>

theorem simulator_well_formed:
  assumes "ftxui_ok w" and "simulated w human local w0 s"
  shows "ui_ok (screen_ui s) \<and> (\<exists>used u. root_event w now ts e (screen_ui s) = Some (used, u)) \<and>
    (sim_phase s = Ended \<longrightarrow> to_post s = {#})"
proof -
  have "screen_ok s" using assms by (rule simulated_screen_ok)
  then show ?thesis
    using root_event_total [OF assms(1), of "screen_ui s" now ts e]
    by (auto simp: screen_ok_def handled_def split: option.splits)
qed

section \<open>Witnesses\<close>

definition sample_local :: "int \<Rightarrow> tm" where
  "sample_local secs =
     \<lparr>tm_hour = nat (secs div 3600 mod 24), tm_min = nat (secs div 60 mod 60), tm_sec = nat (secs mod 60)\<rparr>"

lemma sample_time: "wallClockNow sample_local 86399 = ''23:59:59'' \<and> wallClockNow sample_local 32705 = ''09:05:05''"
  by code_simp

text \<open>Two collections and a channel state arrive before the first event and the first frame.\<close>

definition sample_callbacks :: "callback list" where
  "sample_callbacks =
     [Channel_changes 1 OPEN,
      Analog_inputs_arrive 2 3 [\<lparr>ix_index = 20, ix_value = double_of_int 5, ix_flags = 1\<rparr>],
      Analog_inputs_arrive 4 5 [\<lparr>ix_index = 20, ix_value = double_of_int (- 7), ix_flags = 2\<rparr>]]"

definition sample_simulator :: "unit simulator" where
  "sample_simulator =
     fold (heard_by (\<lambda>st. ''Open'')) sample_callbacks
       \<lparr>screen_ui = new_ui (), posted = [Custom], to_post = {#}, frame = None, shown = None, stale = True,
        sim_phase = Looping, heard = []\<rparr>"

abbreviation sample_run :: "unit simulator \<Rightarrow> bool" where
  "sample_run \<equiv> simulated plain_widgets (\<lambda>st. ''Open'') sample_local ()"

lemma heard_by_frame [simp]:
  "sim_phase (heard_by human c s) = sim_phase s" "posted (heard_by human c s) = posted s"
  by (simp_all add: heard_by_def split: prod.split)

lemma simulated_callbacks:
  "simulated w human local w0 s \<Longrightarrow> sim_phase s \<noteq> Ended \<Longrightarrow>
     simulated w human local w0 (fold (heard_by human) cs s) \<and>
     sim_phase (fold (heard_by human) cs s) = sim_phase s \<and>
     heard (fold (heard_by human) cs s) = heard s @ cs"
proof (induction cs arbitrary: s)
  case (Cons c cs)
  have "simulated w human local w0 (heard_by human c s)"
    using Cons.prems by (blast intro: simulated_step callback_runs)
  from Cons.IH [OF this] Cons.prems(2) show ?case by (simp add: heard_by_fields)
qed simp

lemma sample_simulator_run:
  "sample_run sample_simulator" "sim_phase sample_simulator = Looping"
  "heard sample_simulator = sample_callbacks"
proof -
  let ?s = "\<lparr>screen_ui = new_ui (), posted = [], to_post = {#}, frame = None, shown = None, stale = True,
    sim_phase = Looping, heard = []\<rparr> :: unit simulator"
  let ?t = "?s\<lparr>posted := [Custom]\<rparr>"
  have "sample_run ?s" by (rule simulated_initial) (simp add: sim_initial_def)
  then have "sample_run ?t" by (rule simulated_step)
    (use key_pressed [of ?s plain_widgets "\<lambda>st. ''Open''" sample_local Custom] in simp)
  from simulated_callbacks [OF this, of sample_callbacks]
  show "sample_run sample_simulator" "sim_phase sample_simulator = Looping"
    "heard sample_simulator = sample_callbacks"
    by (simp_all add: sample_simulator_def)
qed

text \<open>No dialog is open and no key is on its way.\<close>

definition calm :: "'w simulator \<Rightarrow> bool" where
  "calm s \<longleftrightarrow> tab_index (screen_ui s) = 0 \<and> \<not> show_crob_modal (screen_ui s) \<and>
     \<not> show_analog_modal (screen_ui s) \<and> set (posted s) \<union> set_mset (to_post s) \<subseteq> {Custom}"

lemma calm_step:
  assumes "screen_step w human local s t" and "ftxui_ok w" and "calm s"
  shows "calm t"
proof -
  have step: "mstep w human local s t" "heard t = heard s" "\<not> (\<exists>e. t = s\<lparr>posted := posted s @ [e]\<rparr>)"
    using assms(1) by (simp_all add: screen_step_def)
  from step(1) show ?thesis
  proof cases
    case (callback_runs c)
    then show ?thesis using step(2) by (simp add: heard_by_fields)
  next
    case (event_posted e)
    then show ?thesis using assms(3) by (auto simp: calm_def dest: in_diffD)
  next
    case (event_handled e es now secs used u)
    have "e = Custom" using assms(3) event_handled(3) by (auto simp: calm_def)
    then have "u = (screen_ui s)\<lparr>tab_index := 0\<rparr>"
      using main_screen_event [OF assms(2), of "screen_ui s" now "wallClockNow local secs" e]
        event_handled(4) assms(3) by (simp add: calm_def)
    with event_handled assms(3) show ?thesis by (auto simp: calm_def)
  qed (use assms(3) step(3) in \<open>auto simp: calm_def\<close>)
qed

lemma calm_run: "(screen_step w human local ^^ n) s t \<Longrightarrow> ftxui_ok w \<Longrightarrow> calm s \<Longrightarrow> calm t"
  by (induction n arbitrary: t) (auto intro: calm_step)

lemma sample_calm: "calm sample_simulator"
  by (simp add: calm_def sample_simulator_def sample_callbacks_def heard_by_def new_ui_def callback_defs)

lemma sample_quiet:
  obtains n t where "(screen_step plain_widgets (\<lambda>st. ''Open'') sample_local ^^ n) sample_simulator t"
    "caught_up t" "sample_run t" "heard t = sample_callbacks" "tab_index (screen_ui t) = 0"
proof -
  obtain n t where t: "(screen_step plain_widgets (\<lambda>st. ''Open'') sample_local ^^ n) sample_simulator t"
    "caught_up t" using catch_up_run [OF ftxui_ok_plain sample_simulator_run(1,2)] by blast
  then show ?thesis
    using screen_run [OF t(1) sample_simulator_run(1)] sample_simulator_run(3)
      calm_run [OF t(1) ftxui_ok_plain sample_calm]
    by (intro that [of n t]) (simp_all add: calm_def)
qed

theorem screen_catches_up_witness:
  "\<exists>n t. (screen_step plain_widgets (\<lambda>st. ''Open'') sample_local ^^ n) sample_simulator t \<and>
     caught_up t \<and> n \<le> screen_work sample_simulator"
proof -
  obtain n t where t: "(screen_step plain_widgets (\<lambda>st. ''Open'') sample_local ^^ n) sample_simulator t"
    "caught_up t" by (rule sample_quiet)
  with screen_catches_up [OF ftxui_ok_plain sample_simulator_run(1,2) t(1)] show ?thesis by blast
qed

theorem simulator_well_formed_witness:
  "ui_ok (screen_ui sample_simulator) \<and>
   (\<exists>used u. root_event plain_widgets 6 [] Return (screen_ui sample_simulator) = Some (used, u))"
  using simulator_well_formed [OF ftxui_ok_plain sample_simulator_run(1)] by simp

theorem quiet_screen_is_current_witness:
  "\<exists>s (t :: int) view. sample_run s \<and> shown s = Some (Main_picture view) \<and>
     table_rows (ai_table view) ! 21 =
       [cell_of ''20'' [], cell_of ''Codigo de Falta'' [],
        cell_of ''        -7'' (color Cyan # (if t - 4 < 1000000000 then [bold] else [])),
        cell_of ''02'' [color Yellow]] \<and>
     header_box view ! 1 = cell_of '' CONNECTED '' [color Green, bold]"
proof -
  obtain n s where s: "(screen_step plain_widgets (\<lambda>st. ''Open'') sample_local ^^ n) sample_simulator s"
    "caught_up s" and run: "sample_run s" and heard: "heard s = sample_callbacks"
    and tab: "tab_index (screen_ui s) = 0" by (rule sample_quiet)
  have pending: "posted s = []" "to_post s = {#}" "\<not> stale s" using s(2) by (simp_all add: caught_up_def)
  let ?last = "last_measured Analog_input sample_callbacks"
  have "?last (of_nat 20) = Some (point_of 4 (double_of_int (- 7)) 2)"
    by (simp add: last_measured_def sample_callbacks_def measured_def)
  note row = analog_row_received [of ?last "of_nat 20", OF this, of kAnalogInputNames]
  have texts: "pad_left 2 (show_nat 20) = ''20''" "kAnalogInputNames ! 20 = ''Codigo de Falta''"
    "pad_left 10 (show_int (- 7)) = ''        -7''" "formatFlags 2 = ''02''" "flagColor 2 = Yellow"
    by code_simp+
  have up: "channel_after sample_callbacks"
    by (simp add: channel_after_def channel_next_def sample_callbacks_def)
  obtain t view where shown: "shown s = Some (Main_picture view)"
    "ai_table view = buildAnalogTable ''Analog Inputs'' kAnalogInputNames ?last t"
    "header_box view ! 1 = cell_of '' CONNECTED '' [color Green, bold]"
    using quiet_screen_is_current [OF ftxui_ok_plain run pending] tab up unfolding heard by auto
  have "table_rows (ai_table view) ! 21 = analog_row kAnalogInputNames ?last t (of_nat 20)"
    by (simp add: shown(2) buildAnalogTable_def row_of_index)
  also have "\<dots> = [cell_of ''20'' [], cell_of ''Codigo de Falta'' [],
      cell_of ''        -7'' (color Cyan # (if t - 4 < 1000000000 then [bold] else [])),
      cell_of ''02'' [color Yellow]]"
    unfolding row by (simp add: row_of_index(2) [where k = 20, simplified] format_0f_int texts)
  finally show ?thesis using run shown by blast
qed

end
