(* ===== verification/Spec2Isabelle.thy ===== *)
theory Spec2Isabelle
  imports ConfigSchema PointDatabase DispatcherProgress DispatcherTime BridgeService Program Teardown MasterBridge MasterThreads
begin

text \<open>
  dnp3-bridge connects a Python application (gRPC) with a SCADA master (DNP3). This development
  models the C++ service under \<open>src/src\<close> and the test master under
  \<open>src/tools/dnp3-master-sim\<close>. Two flows cross the service.

  Points go from the client to the SCADA: \<open>BridgeServiceImpl::UpdatePoints\<close> turns a request into
  updates, \<open>Bridge\<close> queues them and its flush thread hands them to \<open>OutstationManager\<close>, which
  decides for each whether it is a DNP3 event and gives it to opendnp3. Commands go the other
  way: opendnp3 calls \<open>ForwardingCommandHandler\<close>, which hands a request to \<open>CommandDispatcher\<close>;
  that writes it to the client's command stream and waits for the answer, which arrives through
  \<open>BridgeServiceImpl::RespondToCommand\<close>. Both are set up from a configuration file, the
  environment and built-in defaults.

  Theories, in the order of their imports, and what they model:

  \<^item> \<open>Prelude\<close>: machine integers, outcomes of calls that may throw, early returns, ordered maps
    (\<open>std::map\<close>), and the locale \<open>transition_system\<close>, the contract between a step relation and
    its reachable states. It is interpreted by every threaded component.
  \<^item> \<open>Float64\<close>: \<open>double\<close> as IEEE binary64 (a value counts units of \<open>2^-1074\<close>), with rounding,
    subtraction, absolute value, order and the casts the code makes. NaN is one value.
  \<^item> \<open>CppText\<close>: decimal text, \<open>std::stoul\<close> and \<open>std::stoi\<close>.
  \<^item> \<open>AppConfig\<close>, \<open>ConfigLoader\<close>: \<open>config/AppConfig.hpp\<close> and \<open>config/ConfigLoader.cpp\<close>. The JSON
    library, the file and the environment are arguments. \<open>ConfigSchema\<close>: the format of the file as
    data, its documents' conformance and meaning, and that the loader decides the one and yields
    the other.
  \<^item> \<open>PointNaming\<close>, \<open>PointDatabase\<close>: the name tables, validation, the default and the configured
    point database and its summary, from \<open>dnp3/OutstationManager.cpp\<close>. Locales \<open>point_table\<close>,
    \<open>enum_names\<close> and \<open>analog_names\<close> carry the proofs, once for all tables.
  \<^item> \<open>Proto\<close>: the messages of \<open>proto/dnp3bridge.proto\<close>; enums received are open.
  \<^item> \<open>Dispatcher\<close>: the state and operations of \<open>dnp3/CommandDispatcher.cpp\<close> and \<open>dispatch\<close> as one
    function (its environment says how \<open>Write\<close> ends and which answers come in time); streams opened
    and closed against the list of those that are open (\<open>streams_after\<close>).
    \<open>DispatcherThreads\<close>: the same operations as steps of concurrent threads, one lock section
    each, with the invariants. \<open>DispatcherProgress\<close>: progress, what was sent, what a status
    says about the request (\<open>verdict_ok\<close>), the race between a timeout and an answer, and that \<open>dispatch\<close> as one function is a run of the threads.
    \<open>DispatcherTime\<close>: the threads with a clock and the configured timeout; the locale \<open>component\<close>
    carries every invariant over.
  \<^item> \<open>CommandHandler\<close>: \<open>dnp3/ForwardingCommandHandler.cpp\<close>. Locale \<open>command_sink\<close> states what the
    handler needs of a dispatcher; it is interpreted on \<open>dispatch\<close>. \<open>decode_request\<close> is how a client
    reads a request, \<open>forwarded_as\<close> the command it finds there.
  \<^item> \<open>Outstation\<close>: \<open>bridge/DataModel.hpp\<close> and \<open>OutstationManager\<close>: start, shutdown and the event
    decisions. Locale \<open>keyed_updates\<close> (points do not influence each other) is interpreted for
    the analog and for the binary points.
  \<^item> \<open>Bridge\<close>: \<open>bridge/Bridge.cpp\<close> with producers, flush thread and controller as steps.
  \<^item> \<open>BridgeService\<close>: \<open>grpc/BridgeServiceImpl.cpp\<close> and \<open>dnp3/PointMap.cpp\<close>.
  \<^item> \<open>Lifecycle\<close>: \<open>main.cpp\<close> and \<open>grpc/GrpcServer.cpp\<close>: exit codes, and the threads of the
    process from the launch of the server to the end. \<open>Startup\<close>: the middle of \<open>main.cpp\<close>, the
    logger, the report of the configuration, and the construction and start of the components.
  \<^item> \<open>Service\<close>: the running service as one step relation over the components as they are modelled
    above: the process of \<open>Lifecycle\<close>, the bridge with its outstation, the threads of the
    dispatcher and the calls of \<open>UpdatePoints\<close> in progress. \<open>OutstationManager::shutdown\<close> is two steps,
    since opendnp3 calls back until \<open>DNP3Manager::Shutdown\<close> has returned. Locale \<open>component\<close> of the prelude lets a
    component keep its own invariants inside the whole; it is interpreted for the process and for
    the dispatcher. \<open>ServiceShutdown\<close>: the completion of every orderly shutdown, by a measure of
    the service's own steps (\<open>own_step\<close>: no \<open>demand\<close> from outside), and the early signal.
    \<open>CommandFlow\<close>: commands through the service, from the call of \<open>Operate\<close> to the status it
    returns. \<open>Teardown\<close>: the destructors of the components at the end of \<open>main\<close>.
    \<open>Program\<close>: \<open>main\<close> from its arguments to the service or to the exception or exit code it ends
    with, and the outstation of a service as a function of what was delivered; the properties that
    span these parts are at the end of this file.

  The test master is a program of its own that plays the SCADA: opendnp3's master calls its SOE
  handler with measurements and the operator's keys make it poll and send commands.

  \<^item> \<open>MasterModel\<close>: \<open>PointNames.hpp\<close>, \<open>DataModel.hpp\<close> and \<open>SoeHandler.cpp\<close>. Locale \<open>value_table\<close>
    carries the proofs for the four tables of the data model.
  \<^item> \<open>MasterUi\<close>: the key handling of \<open>buildRoot\<close> in \<open>Ui.cpp\<close>. The widgets of ftxui are an argument;
    \<open>ftxui_ok\<close> states what is used of them.
  \<^item> \<open>MasterScreen\<close>: what \<open>Ui.cpp\<close> draws, as texts with their decorators, on the selected tab.
  \<^item> \<open>MasterMain\<close>: \<open>main.cpp\<close> of the test master: command line, channel listener, set-up.
  \<^item> \<open>MasterThreads\<close>: the running test master as a step relation: the callbacks of opendnp3's threads
    with their lock sections and posts, the event loop, the frames it draws, and the shutdown.
  \<^item> \<open>MasterBridge\<close>: the commands of its dialogs followed into the bridge, to the request the
    client gets.

  Records have the members of the classes; members that only record what happened (\<open>sent\<close>,
  \<open>written\<close>, \<open>acks\<close>, \<open>accepted\<close>, \<open>delivered\<close>, \<open>stop_mark\<close>, \<open>applied\<close>, \<open>asked\<close>, \<open>acked\<close>, \<open>replies\<close>,
  \<open>frame\<close>, \<open>heard\<close>) are read by no operation.

  What the lemmas show: configuration is taken member by member, and loading throws exactly for
  the documents that do not conform to the format; validation accepts exactly the databases whose names all resolve; each point has the
  settings of the last entry that gives them. A command returns its own answer or a failure the
  bridge made, entries do not leak, answers are accepted once and only for commands in
  progress, \<open>Write\<close> uses a live stream under the lock, every call returns, and the configured
  timeout is kept on both sides. Updates are
  delivered in order, none lost, none twice; stopping drains; an analog event is sent exactly when
  the deadband is exceeded, and quality alone never sends one. The configured deadbands decide
  the events in every state of the running service, an update published there is
  always delivered, the client reads from the request of an \<open>Operate\<close> the command it was called with,
  what \<open>Operate\<close> returns there is a failure of the bridge or the client's answer to this very command, nothing is used after it is shut down or destroyed, an orderly shutdown always completes and
  loses no acknowledged update, and a shutdown that overtakes the start of the server leaves a
  service that acknowledges updates and applies none (\<open>acknowledged_but_lost\<close>). The keys of the test
  master implement a small machine of dialogs (\<open>dialog_step\<close>), commands leave only from their
  dialog, no interleaving of callbacks and events reaches an array access out of bounds, and a
  screen with nothing pending shows its selected tab as it is now, the main one with the last value
  received for every point.

  Bounds: command ids are 64-bit words; what needs them to be distinct is stated for the first
  \<open>2 ^ 64\<close> calls of \<open>dispatch\<close>. No definition uses fuel: loops recurse structurally, \<open>for_range\<close>
  has a termination proof, and the poll loop of \<open>StreamCommands\<close>, which may run forever, is a
  partial function whose return is characterised. The progress statements name a bound on the
  number of steps (\<open>total_rank\<close>, \<open>work\<close>, \<open>screen_work\<close>).

  Not modelled: the log lines outside \<open>main\<close>; allocation failures; the memory model below the
  lock sections (the relaxed atomics are single values); opendnp3, gRPC, nlohmann::json, spdlog
  and ftxui beyond what they are given and what they return or throw; what the C++ runtime does with
  an exception that leaves \<open>main\<close>; the layout of the test master's
  screen (borders, separators, sizes); the time zone, which is an argument; the Python tools.
\<close>

section \<open>From a request to the outstation\<close>

lemma bridge_run_append:
  "bridge_run lib (as @ bs) b =
     (case bridge_run lib as b of None \<Rightarrow> None | Some b' \<Rightarrow> bridge_run lib bs b')"
  by (induction as arbitrary: b) (auto split: option.split)

text \<open>An undisturbed \<open>applyUpdate\<close> is two steps of the bridge.\<close>

lemma applyUpdate_reachable: "breachable lib m b \<Longrightarrow> breachable lib m (applyUpdate u b)"
proof -
  assume reach: "breachable lib m b"
  have "bridge_run lib [Push u, Notify_one] b = Some (applyUpdate u b)"
    by (simp add: applyUpdate_def notify_one_def push_update_def)
  with reach show ?thesis by (rule breachable_run)
qed

lemma fold_applyUpdate_reachable:
  "breachable lib m b \<Longrightarrow> breachable lib m (fold (\<lambda>x. applyUpdate (f x)) xs b)"
  by (induction xs arbitrary: b) (simp_all add: applyUpdate_reachable)

lemma UpdatePoints_reachable:
  assumes "breachable lib m b" and "UpdatePoints now_ms request svc b = (response, svc', b')"
  shows "breachable lib m b'" and "accepted b' = accepted b @ updates_of request"
  using assms
  by (auto simp: UpdatePoints_def Let_def updates_of_def fold_applyUpdate
      intro: fold_applyUpdate_reachable)

fun pushes :: "bridge_action \<Rightarrow> bool" where
  "pushes (Push u) = True"
| "pushes Notify_one = False"
| "pushes Spurious_wakeup = False"
| "pushes Test = False"
| "pushes Deliver = False"
| "pushes Start = False"
| "pushes Launch = False"
| "pushes Stop = False"
| "pushes Notify_all = False"
| "pushes Join = False"

lemma bridge_run_accepted:
  "bridge_run lib as b = Some b' \<Longrightarrow> \<forall>a \<in> set as. \<not> pushes a \<Longrightarrow> accepted b' = accepted b"
proof (induction as arbitrary: b)
  case (Cons a as)
  from Cons.prems(1) obtain c where c: "bridge_perform lib a b = Some c" "bridge_run lib as c = Some b'"
    by (auto split: option.splits)
  have "\<not> pushes a" using Cons.prems(2) by simp
  then have "accepted c = accepted b"
    by (cases a) (use c(1) in \<open>auto simp: bridge_ops split: if_splits flush_pc.splits list.splits\<close>)
  moreover have "accepted b' = accepted c" using Cons.prems(2) c(2) by (intro Cons.IH) simp_all
  ultimately show ?case by simp
qed simp

text \<open>
  What a client publishes is what the SCADA can read: after \<open>UpdatePoints\<close> on a bridge in any
  state it can reach, once the flush thread has emptied queue and batch, a started outstation
  has applied all updates accepted before and then those of the request, each once, in order,
  with its value, its index and the flags of its quality.
\<close>

theorem published_updates_arrive:
  assumes "breachable lib m b" and "outstation m \<noteq> None"
    and "UpdatePoints now_ms request svc b = (response, svc', b')"
    and "bridge_run lib as b' = Some b''" and "\<forall>a \<in> set as. \<not> pushes a"
    and "queue b'' = []" and "batch (flush b'') = []"
  shows "map content_of (applied (out b'')) =
     map content_of (applied m) @ map (expected_content lib) (accepted b @ updates_of request)"
proof -
  note upd = UpdatePoints_reachable [OF assms(1,3)]
  have reach: "breachable lib m b''" using upd(1) assms(4) by (rule breachable_run)
  have "delivered b'' = accepted b''"
    using bridge_parts(1) [OF reach] assms(6,7) by (simp add: fifo_def)
  also have "\<dots> = accepted b @ updates_of request"
    using bridge_run_accepted [OF assms(4,5)] upd(2) by simp
  finally show ?thesis
    using bridge_parts(1) [OF reach] deliver_all_content [OF assms(2), of lib "delivered b''"]
    by (simp add: fifo_def)
qed

theorem published_updates_arrive_witness:
  "\<exists>b'' :: bridge. map content_of (applied (out b'')) =
     [Analog_content (Fin False 6) 3 4, Binary_content True 0 1]"
proof -
  define b0 where "b0 = the (bridge_run sample_quality [Start, Launch] (new_bridge sample_manager))"
  have run0: "bridge_run sample_quality [Start, Launch] (new_bridge sample_manager) = Some b0"
    by (simp add: b0_def bridge_ops new_bridge_def)
  have reach: "breachable sample_quality sample_manager b0"
    by (rule breachable_run [OF breachable_initial run0])
  have b0: "queue b0 = []" "flush b0 = Checking" "accepted b0 = []" "running b0"
    by (simp_all add: b0_def bridge_ops new_bridge_def)
  obtain response svc' b' where upd:
    "UpdatePoints 5 sample_request \<lparr>last_update_ms = 0\<rparr> b0 = (response, svc', b')"
    by (cases "UpdatePoints 5 sample_request \<lparr>last_update_ms = 0\<rparr> b0")
  have b': "queue b' = updates_of sample_request" "flush b' = Checking"
    using upd b0
    by (auto simp: UpdatePoints_def Let_def sample_request_def updates_of_def applyUpdate_fields wake_def)
  obtain b'' where run: "bridge_run sample_quality [Test, Deliver, Deliver, Deliver] b' = Some b''"
    and b'': "queue b'' = []" "batch (flush b'') = []"
    using b' by (simp add: sample_request_updates test_predicate_def deliver_front_def)
  have "\<forall>a \<in> set [Test, Deliver, Deliver, Deliver]. \<not> pushes a" by simp
  from published_updates_arrive [OF reach sample_manager_started upd run this b'']
  show ?thesis
    by (intro exI [of _ b'']) (simp add: b0 sample_request_updates sample_manager_fresh sample_quality_def)
qed

section \<open>The running service\<close>

text \<open>
  C6: What a client publishes is what the SCADA can read, in the running service: from every state
  in which the server takes calls and \<open>main\<close> has not stopped it, a call of \<open>UpdatePoints\<close> can run to
  its answer as the one function does, which is a success; and from there, under every
  schedule of the service's own steps, in a bounded number of them and without any further
  request, the outstation comes to have applied every update accepted before, then those of the
  request, then those of other requests in progress, each once, in order, with its value, its
  index and the flags of its quality. This holds as well when the shutdown begins meanwhile.
\<close>

theorem published_updates_reach_outstation:
  assumes "sreachable q lib cfg s" and "serving (proc s)" and "before_stop (main_at (proc s))"
    and "UpdatePoints now_ms r (impl s) (flow s) = (response, impl', b)"
    and "s' = s\<lparr>flow := b, acked := acked s + mset (updates_of r), impl := impl'\<rparr>"
    and "(own_step q ^^ n) s' t"
  shows "(sstep q)\<^sup>*\<^sup>* s s' \<and> success response \<and> last_update_ms impl' = now_ms \<and> n \<le> work s' \<and>
    ((\<exists>u. own_step q t u) \<or> handlers t = {#} \<and>
      (\<exists>vs. map content_of (applied (out (flow t))) =
         map (expected_content q) (accepted (flow s) @ updates_of r @ vs)))"
proof -
  have s': "s' = answered_at now_ms r s" by (simp add: answered_at_def assms(4,5))
  have run: "(sstep q)\<^sup>*\<^sup>* s s'" unfolding s' using assms(2) by (rule request_answered)
  have reach: "sreachable q lib cfg s'" using assms(1) run by (rule services.reachable_steps)
  have acc: "accepted (flow s') = accepted (flow s) @ updates_of r"
    and server: "stop_sees_server (proc s')"
    using assms(2,3) unfolding s' answered_at_flow
    by (simp_all add: handled_alone_def serving_def stop_sees_server_def)
  note own = own_run_steps [OF assms(6)] and reach_t = own_run(1) [OF assms(6) reach]
  have "handlers t = {#} \<and> (\<exists>vs. map content_of (applied (out (flow t))) =
      map (expected_content q) (accepted (flow s) @ updates_of r @ vs))"
    if rest: "\<not> (\<exists>u. own_step q t u)"
  proof -
    obtain vs where "accepted (flow t) = accepted (flow s) @ updates_of r @ vs"
      using accepted_grows [OF own] acc by auto
    moreover have "queue (flow t) = []"
      using at_rest(3) [OF reach_t rest] stop_sees_server_stays [OF own server] .
    ultimately show ?thesis
      using drained_service [OF reach_t _ at_rest(2) [OF reach_t rest]] at_rest(1) [OF reach_t rest]
      by auto
  qed
  moreover have "success response" "last_update_ms impl' = now_ms"
    using assms(4) by (auto simp: UpdatePoints_def Let_def)
  ultimately show ?thesis using run own_run(2) [OF assms(6) reach] by fastforce
qed

theorem published_updates_reach_outstation_witness:
  "\<exists>t us vs. sample_service t \<and> map content_of (applied (out (flow t))) =
     us @ [Analog_content (Fin False 6) 3 4, Binary_content True 0 1] @ vs"
proof -
  obtain response impl' b where upd:
    "UpdatePoints 5 sample_request (impl busy_service) (flow busy_service) = (response, impl', b)"
    by (cases "UpdatePoints 5 sample_request (impl busy_service) (flow busy_service)")
  have up: "serving (proc busy_service)" "before_stop (main_at (proc busy_service))"
    by (simp_all add: busy_service_process serving_def)
  define s' where "s' = busy_service\<lparr>flow := b,
    acked := acked busy_service + mset (updates_of sample_request), impl := impl'\<rparr>"
  have "sample_service s'"
    using busy_service_reachable request_answered [OF up(1), of sample_quality 5 sample_request]
    by (auto simp: answered_at_def upd s'_def intro: services.reachable_steps)
  then obtain n t where t: "(own_step sample_quality ^^ n) s' t" "\<not> (\<exists>u. own_step sample_quality t u)"
    and reach: "sample_service t"
    using own_run_to_rest own_run(1) by blast
  obtain vs where "map content_of (applied (out (flow t))) = map (expected_content sample_quality)
      (accepted (flow busy_service) @ updates_of sample_request @ vs)"
    using published_updates_reach_outstation [OF busy_service_reachable up upd s'_def t(1)] t(2) by blast
  with reach show ?thesis
    by (intro exI [of _ t] exI [of _ "map (expected_content sample_quality) (accepted (flow busy_service))"]
        exI [of _ "map (expected_content sample_quality) vs"])
      (simp add: sample_request_updates sample_quality_def)
qed

text \<open>
  C7: The deadbands of the configuration file decide the events of the running service: in every
  state the service can reach after \<open>main\<close> came to serving, whatever clients, master and threads
  did in between and also during a shutdown, the k-th measurement of an analog point that the
  outstation applied is the k-th value delivered for it, and it was an event exactly when it was
  the first, it or the latest event value is not finite, or it differs from that by more than the
  deadband of the configuration: that of the last entry for the point that gives one, the
  library's default if none does, and zero for a point that is not configured.
\<close>

theorem configured_deadband_decides:
  assumes "main_until_service api read_file parse width getenv open_file from_str version net lib argv =
      Ret (Serves logger lines s0)"
    and "(sstep q)\<^sup>*\<^sup>* s0 s" and "db_analog_input (fresh_database lib) = []"
    and "analog_values index (delivered (flow s)) ! k = (v, quality)"
    and "k < length (analog_values index (delivered (flow s)))"
  shows "\<exists>cfg log. load api read_file parse width getenv (config_path argv) = Ret (Inr cfg) \<and>
    sreachable q lib cfg s \<and> log = filter (analog_on index) (applied (out (flow s))) \<and>
    log ! k = Analog v (toFlagBits q quality) index
      (if exceeds (deadband_in lib cfg index) (last_event (take k log)) v then Force else Suppress)"
proof -
  obtain cfg where cfg: "configure api read_file parse width getenv argv = Ret (Run cfg)"
    "s0 = in_service (the (boot lib cfg))"
    using assms(1) unfolding program_outcomes by blast
  have reach: "sreachable q lib cfg s"
    using sreachable_initial [OF initial_service] assms(2) unfolding cfg(2)
    by (rule services.reachable_steps)
  let ?m = "start lib (new_OutstationManager cfg)"
  let ?vs = "analog_values index (delivered (flow s))"
  have fresh: "untouched ?m"
    by (simp add: untouched_def start_def Let_def new_OutstationManager_def)
  have log: "filter (analog_on index) (applied (out (flow s))) =
      analog_history q (deadband_in lib cfg index) index ?vs fresh_analog_state"
    using service_delivered_exactly [OF reach] point_log_history [OF fresh, of q "delivered (flow s)" index]
      started_deadband [OF configure_cases(1) [THEN iffD1, THEN conjunct2, OF cfg(1)] assms(3), of index]
    by (simp add: delivered_exactly_def same_points_def point_log_def)
  show ?thesis
    using cfg(1) reach log analog_history_rule [OF tracks_fresh assms(5), of q "deadband_in lib cfg index" index]
    by (intro exI [of _ cfg] exI [of _ "analog_history q (deadband_in lib cfg index) index ?vs fresh_analog_state"])
      (simp add: configure_cases assms(4) event_mode_def)
qed

theorem configured_deadband_decides_witness:
  "\<exists>s log. sample_service s \<and> log = filter (analog_on 4) (applied (out (flow s))) \<and>
     log ! 0 = Analog (Fin False 6) 3 4 Force"
proof -
  obtain logger lines where serves: "main_until_service sample_api (\<lambda>f. None) (\<lambda>t. Inl t) 64 (\<lambda>name. None)
      (\<lambda>f size n. None) (\<lambda>s. s) ''1.0'' sample_stack sample_defaults [''dnp3-bridge''] =
    Ret (Serves logger lines (in_service (the (boot sample_defaults default_AppConfig))))"
    using sample_main_serves by blast
  obtain t vs where t: "(sstep sample_quality)\<^sup>*\<^sup>* (in_service (the (boot sample_defaults default_AppConfig))) t"
    "delivered (flow t) = updates_of sample_request @ vs" by (rule sample_delivery)
  have fresh: "db_analog_input (fresh_database sample_defaults) = []"
    by (simp add: sample_defaults_def no_points_def)
  have vals: "analog_values 4 (delivered (flow t)) ! 0 = (Fin False 6, Restart)"
    "0 < length (analog_values 4 (delivered (flow t)))"
    by (simp_all add: t(2) sample_request_updates)
  have reach: "sample_service t"
    by (rule services.reachable_steps [OF sreachable_initial [OF initial_service] t(1)])
  obtain cfg where "filter (analog_on 4) (applied (out (flow t))) ! 0 =
      Analog (Fin False 6) (toFlagBits sample_quality Restart) 4
        (if exceeds (deadband_in sample_defaults cfg 4) (last_event []) (Fin False 6) then Force else Suppress)"
    using configured_deadband_decides [OF serves t(1) fresh vals] by auto
  then show ?thesis using reach by (intro exI [of _ t]) (simp add: exceeds_def sample_quality_def)
qed

end
